theory Spec2Isabelle
  imports Complex_Main "HOL-Library.Multiset"
begin

section \<open>Values, errors and tables\<close>

text \<open>
  The dashboard of \<^verbatim>\<open>experiment-7/app.py\<close> works on pandas tables, JSON stores and
  strings. Exceptions are values of \<open>py_error\<close>; a function that can raise returns
  \<open>py_error + 'a\<close>.
\<close>

datatype py_error =
    KeyError string
  | AttributeError string
  | TypeError
  | ValueError string
  | ZeroDivisionError
  | EmptyDataError
  | FetchError int string

text \<open>A Python float: the finite values, the two infinities and NaN.\<close>

datatype pyfloat = NaN | NInf | Fin real | PInf

fun flt_gt :: "pyfloat \<Rightarrow> real \<Rightarrow> bool" where
  "flt_gt NaN b = False"
| "flt_gt NInf b = False"
| "flt_gt (Fin a) b = (a > b)"
| "flt_gt PInf b = True"

fun flt_lt :: "pyfloat \<Rightarrow> real \<Rightarrow> bool" where
  "flt_lt NaN b = False"
| "flt_lt NInf b = True"
| "flt_lt (Fin a) b = (a < b)"
| "flt_lt PInf b = False"

text \<open>
  A timestamp: year, month, day and the time of day. \<open>month_start\<close> is
  \<^verbatim>\<open>.dt.to_period("M").dt.to_timestamp()\<close>: the first of the month at midnight.
\<close>

datatype ts = TS int nat nat nat

fun month_start :: "ts \<Rightarrow> ts" where
  "month_start (TS y m d t) = TS y m 1 0"

text \<open>
  A cell of a table. \<open>CNull\<close> is \<^verbatim>\<open>None\<close>/\<^verbatim>\<open>NaT\<close>; a float cell holding NaN is
  null as well.
\<close>

datatype cell = CNull | CNum pyfloat | CStr string | CTime ts | CDay int nat nat

fun is_null :: "cell \<Rightarrow> bool" where
  "is_null CNull = True"
| "is_null (CNum NaN) = True"
| "is_null c = False"

text \<open>
  A table: the column names in order and the rows, each row holding one cell per column.
\<close>

record table =
  cols :: "string list"
  rws :: "cell list list"

definition empty_table :: table where
  "empty_table = \<lparr>cols = [], rws = []\<rparr>"

definition rget :: "string list \<Rightarrow> cell list \<Rightarrow> string \<Rightarrow> cell option" where
  "rget cs r c = map_of (zip cs r) c"

text \<open>JSON values as held by the browser-side stores.\<close>

datatype json =
    JNull
  | JNum real
  | JStr string
  | JArr "json list"
  | JObj "(string \<times> json) list"

section \<open>Point-in-area shot counter\<close>

text \<open>
  \<^verbatim>\<open>
  def compute_area_shot_count(hex_ids, shots_geojson):
      if not hex_ids or not shots_geojson or "features" not in shots_geojson:
          return 0
      count = 0
      for feat in shots_geojson["features"]:
          lon, lat = feat["geometry"]["coordinates"]
          cell = h3.latlng_to_cell(lat, lon, 10)
          if cell in hex_ids:
              count += 1
      return count
  \<close>
  \<open>shots_geojson\<close> is a dict or \<^verbatim>\<open>None\<close>; \<open>ltc\<close> stands for \<^verbatim>\<open>h3.latlng_to_cell\<close>,
  which is total on finite coordinates.
\<close>

text \<open>\<^verbatim>\<open>v[k]\<close> for a string key.\<close>

fun subscript :: "json \<Rightarrow> string \<Rightarrow> py_error + json" where
  "subscript (JObj kvs) k = (case map_of kvs k of None \<Rightarrow> Inl (KeyError k) | Some v \<Rightarrow> Inr v)"
| "subscript v k = Inl TypeError"

text \<open>The items a \<^verbatim>\<open>for\<close> loop or an unpacking sees.\<close>

fun iterate :: "json \<Rightarrow> py_error + json list" where
  "iterate (JArr xs) = Inr xs"
| "iterate (JStr s) = Inr (map (\<lambda>c. JStr [c]) s)"
| "iterate (JObj kvs) = Inr (map (\<lambda>kv. JStr (fst kv)) kvs)"
| "iterate v = Inl TypeError"

text \<open>\<^verbatim>\<open>lon, lat = v\<close>.\<close>

definition unpack2 :: "json \<Rightarrow> py_error + (json \<times> json)" where
  "unpack2 v =
     (case iterate v of
        Inl e \<Rightarrow> Inl e
      | Inr [a, b] \<Rightarrow> Inr (a, b)
      | Inr _ \<Rightarrow> Inl (ValueError ''unpack''))"

definition feat_cell :: "(real \<Rightarrow> real \<Rightarrow> nat \<Rightarrow> string) \<Rightarrow> json \<Rightarrow> py_error + string" where
  "feat_cell ltc feat =
     (case subscript feat ''geometry'' of
        Inl e \<Rightarrow> Inl e
      | Inr g \<Rightarrow>
          (case subscript g ''coordinates'' of
             Inl e \<Rightarrow> Inl e
           | Inr cs \<Rightarrow>
               (case unpack2 cs of
                  Inl e \<Rightarrow> Inl e
                | Inr (JNum lon, JNum lat) \<Rightarrow> Inr (ltc lat lon 10)
                | Inr _ \<Rightarrow> Inl TypeError)))"

fun count_feats :: "(real \<Rightarrow> real \<Rightarrow> nat \<Rightarrow> string) \<Rightarrow> string list \<Rightarrow> json list \<Rightarrow> nat
    \<Rightarrow> py_error + nat" where
  "count_feats ltc hex_ids [] cnt = Inr cnt"
| "count_feats ltc hex_ids (feat # fs) cnt =
     (case feat_cell ltc feat of
        Inl e \<Rightarrow> Inl e
      | Inr c \<Rightarrow> count_feats ltc hex_ids fs (if c \<in> set hex_ids then cnt + 1 else cnt))"

definition compute_area_shot_count ::
    "(real \<Rightarrow> real \<Rightarrow> nat \<Rightarrow> string) \<Rightarrow> string list \<Rightarrow> (string \<times> json) list option
      \<Rightarrow> py_error + nat" where
  "compute_area_shot_count ltc hex_ids shots_geojson =
     (case shots_geojson of
        None \<Rightarrow> Inr 0
      | Some d \<Rightarrow>
          if hex_ids = [] \<or> d = [] \<or> map_of d ''features'' = None then Inr 0
          else
            (case subscript (JObj d) ''features'' of
               Inl e \<Rightarrow> Inl e
             | Inr fv \<Rightarrow>
                 (case iterate fv of
                    Inl e \<Rightarrow> Inl e
                  | Inr fs \<Rightarrow> count_feats ltc hex_ids fs 0)))"

text \<open>
  The shape of a GeoJSON point feature, as \<open>update_map_data\<close> writes it: an object whose
  \<open>geometry\<close> is an object whose \<open>coordinates\<close> are the list of two numbers, longitude
  and latitude. \<open>feature_point\<close> gives the two numbers of such a feature.
\<close>

fun lonlat :: "json \<Rightarrow> (real \<times> real) option" where
  "lonlat (JArr [JNum lon, JNum lat]) = Some (lon, lat)"
| "lonlat v = None"

fun member_of :: "json \<Rightarrow> string \<Rightarrow> json option" where
  "member_of (JObj kvs) k = map_of kvs k"
| "member_of v k = None"

definition feature_point :: "json \<Rightarrow> (real \<times> real) option" where
  "feature_point f =
     (case member_of f ''geometry'' of
        None \<Rightarrow> None
      | Some g \<Rightarrow> (case member_of g ''coordinates'' of None \<Rightarrow> None | Some cs \<Rightarrow> lonlat cs))"

definition point_feature :: "json \<Rightarrow> bool" where
  "point_feature f = (feature_point f \<noteq> None)"

text \<open>A point feature whose cell at resolution 10 is one of \<open>hex_ids\<close>.\<close>

definition in_selection :: "(real \<Rightarrow> real \<Rightarrow> nat \<Rightarrow> string) \<Rightarrow> string list \<Rightarrow> json \<Rightarrow> bool" where
  "in_selection ltc hex_ids f =
     (case feature_point f of None \<Rightarrow> False | Some p \<Rightarrow> ltc (snd p) (fst p) 10 \<in> set hex_ids)"

section \<open>Table operations\<close>

text \<open>The cell of row \<open>r\<close> under column \<open>c\<close>; a row too short for the column has none.\<close>

definition cell_at :: "string list \<Rightarrow> cell list \<Rightarrow> string \<Rightarrow> cell" where
  "cell_at cs r c = (case rget cs r c of None \<Rightarrow> CNull | Some v \<Rightarrow> v)"

text \<open>Writing \<open>v\<close> into the cell of column \<open>c\<close>.\<close>

fun put :: "string list \<Rightarrow> string \<Rightarrow> cell \<Rightarrow> cell list \<Rightarrow> cell list" where
  "put (k # ks) c v (x # xs) = (if k = c then v # xs else x # put ks c v xs)"
| "put ks c v xs = xs"

text \<open>
  \<^verbatim>\<open>df[c] = ...\<close> with the new cell computed from each row: an existing column is
  overwritten in place, a new one is appended on the right.
\<close>

definition row_assign :: "string list \<Rightarrow> string \<Rightarrow> (cell list \<Rightarrow> cell) \<Rightarrow> cell list \<Rightarrow> cell list" where
  "row_assign cs c f r = (if c \<in> set cs then put cs c (f r) r else r @ [f r])"

definition assign :: "string \<Rightarrow> (cell list \<Rightarrow> cell) \<Rightarrow> table \<Rightarrow> table" where
  "assign c f df =
     \<lparr>cols = (if c \<in> set (cols df) then cols df else cols df @ [c]),
      rws = map (row_assign (cols df) c f) (rws df)\<rparr>"

text \<open>\<^verbatim>\<open>df.dropna(subset=[...])\<close>: rows with a null cell in one of the columns go.\<close>

definition dropna :: "string list \<Rightarrow> table \<Rightarrow> py_error + table" where
  "dropna subs df =
     (case filter (\<lambda>c. c \<notin> set (cols df)) subs of
        c # _ \<Rightarrow> Inl (KeyError c)
      | [] \<Rightarrow> Inr (df\<lparr>rws := filter (\<lambda>r. \<forall>c \<in> set subs. \<not> is_null (cell_at (cols df) r c)) (rws df)\<rparr>))"


section \<open>Record normalizer\<close>

text \<open>
  \<^verbatim>\<open>
  def process_dataframe(df, location_columns=True, date_column=True):
      df = df.copy()
      if location_columns:
          df["latitude"] = pd.to_numeric(df["latitude"], errors="coerce")
          df["longitude"] = pd.to_numeric(df["longitude"], errors="coerce")
          df = df[(df["latitude"] > 40) & (df["latitude"] < 43)
                  & (df["longitude"] > -72) & (df["longitude"] < -70)]
      if date_column:
          df["date"] = pd.to_datetime(df["date"], errors="coerce")
          df["month"] = df["date"].dt.to_period("M").dt.to_timestamp()
      return df
  \<close>
  \<open>to_numeric\<close> and \<open>to_datetime\<close> stand for the two pandas coercions of one cell:
  with \<^verbatim>\<open>errors="coerce"\<close> a value that does not parse becomes NaN, respectively NaT.
  Reading a column the table does not have raises \<^verbatim>\<open>KeyError\<close>.
\<close>

definition flt_at :: "string list \<Rightarrow> cell list \<Rightarrow> string \<Rightarrow> pyfloat" where
  "flt_at cs r c = (case cell_at cs r c of CNum f \<Rightarrow> f | _ \<Rightarrow> NaN)"

definition in_box :: "string list \<Rightarrow> cell list \<Rightarrow> bool" where
  "in_box cs r =
     (flt_gt (flt_at cs r ''latitude'') 40 \<and> flt_lt (flt_at cs r ''latitude'') 43
      \<and> flt_gt (flt_at cs r ''longitude'') (- 72) \<and> flt_lt (flt_at cs r ''longitude'') (- 70))"

definition date_cell :: "(cell \<Rightarrow> ts option) \<Rightarrow> cell \<Rightarrow> cell" where
  "date_cell to_datetime c = (case to_datetime c of None \<Rightarrow> CNull | Some t \<Rightarrow> CTime t)"

fun month_cell :: "cell \<Rightarrow> cell" where
  "month_cell (CTime t) = CTime (month_start t)"
| "month_cell c = CNull"

definition process_location :: "(cell \<Rightarrow> pyfloat) \<Rightarrow> table \<Rightarrow> py_error + table" where
  "process_location to_numeric df =
     (if ''latitude'' \<notin> set (cols df) then Inl (KeyError ''latitude'')
      else
        let df1 = assign ''latitude'' (\<lambda>r. CNum (to_numeric (cell_at (cols df) r ''latitude''))) df
        in if ''longitude'' \<notin> set (cols df1) then Inl (KeyError ''longitude'')
           else
             let df2 = assign ''longitude''
                         (\<lambda>r. CNum (to_numeric (cell_at (cols df1) r ''longitude''))) df1
             in Inr (df2\<lparr>rws := filter (in_box (cols df2)) (rws df2)\<rparr>))"

definition process_date :: "(cell \<Rightarrow> ts option) \<Rightarrow> table \<Rightarrow> py_error + table" where
  "process_date to_datetime df =
     (if ''date'' \<notin> set (cols df) then Inl (KeyError ''date'')
      else
        let df1 = assign ''date'' (\<lambda>r. date_cell to_datetime (cell_at (cols df) r ''date'')) df
        in Inr (assign ''month'' (\<lambda>r. month_cell (cell_at (cols df1) r ''date'')) df1))"

definition process_dataframe ::
    "(cell \<Rightarrow> pyfloat) \<Rightarrow> (cell \<Rightarrow> ts option) \<Rightarrow> table \<Rightarrow> bool \<Rightarrow> bool \<Rightarrow> py_error + table" where
  "process_dataframe to_numeric to_datetime df location_columns date_column =
     (case (if location_columns then process_location to_numeric df else Inr df) of
        Inl e \<Rightarrow> Inl e
      | Inr df' \<Rightarrow> if date_column then process_date to_datetime df' else Inr df')"

text \<open>The invariant of a table: every row has one cell per column.\<close>

definition wf_table :: "table \<Rightarrow> bool" where
  "wf_table df = list_all (\<lambda>r. length r = length (cols df)) (rws df)"

section \<open>Hex aggregator\<close>

text \<open>
  The h3 library is a parameter: \<open>ltc\<close> is \<^verbatim>\<open>h3.latlng_to_cell\<close>, \<open>ctb\<close> is
  \<^verbatim>\<open>h3.cell_to_boundary\<close> (the first vertex and the others, each a pair latitude,
  longitude) and \<open>ctl\<close> is \<^verbatim>\<open>h3.cell_to_latlng\<close>. \<open>pystr\<close> is Python's \<^verbatim>\<open>str\<close> on a
  cell and \<open>strptime\<close> is \<^verbatim>\<open>datetime.strptime(s, "%B %Y")\<close>, giving year and month or
  failing.
\<close>

text \<open>
  \<^verbatim>\<open>
  def date_string_to_year_month(date_string):
      try:
          date_obj = datetime.strptime(date_string, "%B %Y")
          return date_obj.year, date_obj.month
      except Exception as e:
          return 2024, 12
  \<close>
\<close>

definition date_string_to_year_month :: "(string \<Rightarrow> (int \<times> nat) option) \<Rightarrow> string \<Rightarrow> int \<times> nat" where
  "date_string_to_year_month strptime date_string =
     (case strptime date_string of None \<Rightarrow> (2024, 12) | Some ym \<Rightarrow> ym)"

text \<open>\<^verbatim>\<open>pd.Timestamp(f"{year}-{month:02d}")\<close>: midnight on the first of the month.\<close>

definition month_timestamp :: "int \<times> nat \<Rightarrow> ts" where
  "month_timestamp ym = TS (fst ym) (snd ym) 1 0"

text \<open>\<^verbatim>\<open>df.empty\<close>: one of the two axes has length 0.\<close>

definition df_empty :: "table \<Rightarrow> bool" where
  "df_empty df = (cols df = [] \<or> rws df = [])"

text \<open>
  \<^verbatim>\<open>h3.latlng_to_cell(row.latitude, row.longitude, resolution)\<close>: the library wants two
  finite numbers.
\<close>

definition row_latlng :: "string list \<Rightarrow> cell list \<Rightarrow> py_error + (real \<times> real)" where
  "row_latlng cs r =
     (case rget cs r ''latitude'' of
        None \<Rightarrow> Inl (AttributeError ''latitude'')
      | Some la \<Rightarrow>
          (case rget cs r ''longitude'' of
             None \<Rightarrow> Inl (AttributeError ''longitude'')
           | Some lo \<Rightarrow>
               (case (la, lo) of
                  (CNum (Fin a), CNum (Fin b)) \<Rightarrow> Inr (a, b)
                | _ \<Rightarrow> Inl (ValueError ''latlng''))))"

definition row_hex :: "(real \<Rightarrow> real \<Rightarrow> nat \<Rightarrow> string) \<Rightarrow> string list \<Rightarrow> cell list \<Rightarrow> py_error + string" where
  "row_hex ltc cs r =
     (case row_latlng cs r of Inl e \<Rightarrow> Inl e | Inr p \<Rightarrow> Inr (ltc (fst p) (snd p) 10))"

text \<open>
  \<^verbatim>\<open>hex_to_points.setdefault(hex_id, []).append(v)\<close> on a dict, which keeps its keys in
  the order of their first insertion.
\<close>

fun setdefault_append :: "'k \<Rightarrow> 'v \<Rightarrow> ('k \<times> 'v list) list \<Rightarrow> ('k \<times> 'v list) list" where
  "setdefault_append k v [] = [(k, [v])]"
| "setdefault_append k v ((k', vs) # m) =
     (if k' = k then (k', vs @ [v]) # m else (k', vs) # setdefault_append k v m)"

text \<open>
  \<^verbatim>\<open>
  hex_to_points = {}
  for _, row in df.iterrows():
      hex_id = h3.latlng_to_cell(row.latitude, row.longitude, resolution)
      hex_to_points.setdefault(hex_id, []).append(str(row["id"]))
  \<close>
\<close>

fun hex_group :: "(real \<Rightarrow> real \<Rightarrow> nat \<Rightarrow> string) \<Rightarrow> (cell \<Rightarrow> string) \<Rightarrow> string list
    \<Rightarrow> cell list list \<Rightarrow> (string \<times> string list) list \<Rightarrow> py_error + (string \<times> string list) list" where
  "hex_group ltc pystr cs [] hex_to_points = Inr hex_to_points"
| "hex_group ltc pystr cs (r # rs) hex_to_points =
     (case row_hex ltc cs r of
        Inl e \<Rightarrow> Inl e
      | Inr hex_id \<Rightarrow>
          (case rget cs r ''id'' of
             None \<Rightarrow> Inl (KeyError ''id'')
           | Some c \<Rightarrow> hex_group ltc pystr cs rs (setdefault_append hex_id (pystr c) hex_to_points)))"

text \<open>
  \<^verbatim>\<open>[[lng, lat] for lat, lng in boundary] + [[boundary[0][1], boundary[0][0]]]\<close>: the
  ring of a cell, closed by its first vertex.
\<close>

definition ring :: "(real \<times> real) \<times> (real \<times> real) list \<Rightarrow> (real \<times> real) list" where
  "ring boundary =
     map (\<lambda>v. (snd v, fst v)) (fst boundary # snd boundary) @ [(snd (fst boundary), fst (fst boundary))]"

text \<open>The feature of one cell in the month view.\<close>

record month_feature =
  mf_hex_id :: string
  mf_value :: nat
  mf_lat :: real
  mf_lon :: real
  mf_ids :: "string list"
  mf_coords :: "(real \<times> real) list"

definition month_features ::
    "(string \<Rightarrow> (real \<times> real) \<times> (real \<times> real) list) \<Rightarrow> (string \<Rightarrow> real \<times> real)
      \<Rightarrow> (string \<times> string list) list \<Rightarrow> month_feature list" where
  "month_features ctb ctl hex_to_points =
     map (\<lambda>kv. \<lparr>mf_hex_id = fst kv, mf_value = length (snd kv),
                mf_lat = fst (ctl (fst kv)), mf_lon = snd (ctl (fst kv)),
                mf_ids = snd kv, mf_coords = ring (ctb (fst kv))\<rparr>) hex_to_points"

text \<open>A JSON number or string for a cell; other cells are \<^verbatim>\<open>null\<close>.\<close>

fun cell_json :: "cell \<Rightarrow> json" where
  "cell_json (CNum (Fin x)) = JNum x"
| "cell_json (CStr s) = JStr s"
| "cell_json c = JNull"

text \<open>
  \<^verbatim>\<open>
  {"type": "Feature", "id": str(row["id"]) if "id" in row else None,
   "properties": {"id": str(row["id"]) if "id" in row else None},
   "geometry": {"type": "Point", "coordinates": [row["longitude"], row["latitude"]]}}
  \<close>
\<close>

definition point_json :: "(cell \<Rightarrow> string) \<Rightarrow> string list \<Rightarrow> cell list \<Rightarrow> py_error + json" where
  "point_json pystr cs r =
     (let idj = (case rget cs r ''id'' of None \<Rightarrow> JNull | Some c \<Rightarrow> JStr (pystr c))
      in case rget cs r ''longitude'' of
           None \<Rightarrow> Inl (KeyError ''longitude'')
         | Some lo \<Rightarrow>
             (case rget cs r ''latitude'' of
                None \<Rightarrow> Inl (KeyError ''latitude'')
              | Some la \<Rightarrow>
                  Inr (JObj [(''type'', JStr ''Feature''), (''id'', idj),
                             (''properties'', JObj [(''id'', idj)]),
                             (''geometry'', JObj [(''type'', JStr ''Point''),
                                (''coordinates'', JArr [cell_json lo, cell_json la])])])))"

fun point_features :: "(cell \<Rightarrow> string) \<Rightarrow> string list \<Rightarrow> cell list list \<Rightarrow> py_error + json list" where
  "point_features pystr cs [] = Inr []"
| "point_features pystr cs (r # rs) =
     (case point_json pystr cs r of
        Inl e \<Rightarrow> Inl e
      | Inr f \<Rightarrow> (case point_features pystr cs rs of Inl e \<Rightarrow> Inl e | Inr fs \<Rightarrow> Inr (f # fs)))"

definition feature_collection :: "json list \<Rightarrow> (string \<times> json) list" where
  "feature_collection fs = [(''type'', JStr ''FeatureCollection''), (''features'', JArr fs)]"

text \<open>
  The rows of a table whose date falls in the month that starts at \<open>sel\<close>:
  \<^verbatim>\<open>df[df["date"].dt.to_period("M").dt.to_timestamp() == selected_month]\<close>.
\<close>

definition rows_of_month :: "ts \<Rightarrow> table \<Rightarrow> py_error + cell list list" where
  "rows_of_month sel df =
     (if ''date'' \<notin> set (cols df) then Inl (KeyError ''date'')
      else Inr (filter (\<lambda>r. month_cell (cell_at (cols df) r ''date'') = CTime sel) (rws df)))"

text \<open>
  \<^verbatim>\<open>
  def update_map_data(date_value):
      year, month = date_string_to_year_month(date_value)
      selected_month = pd.Timestamp(f"{year}-{month:02d}")
      df_month = df_311[df_311["month"] == selected_month]
      shots_month = df_shots[... == selected_month]
      homicides_month = df_hom_shot_matched[... == selected_month]
      if df_month.empty:
          return {"type": "FeatureCollection", "features": []}, None, None
      resolution = 10
      hex_to_points = {} ... (the grouping loop)
      hex_features = [] ... (one feature per cell: value = len(point_ids), ids = point_ids)
      ... (one point feature per row of shots_month and of homicides_month)
      return hex_data, shots_data, homicides_data
  \<close>
  The three module-level tables are arguments. The result is the list of hex features and
  the two point collections (a dict or \<^verbatim>\<open>None\<close>).
\<close>

definition update_map_data ::
    "(string \<Rightarrow> (int \<times> nat) option) \<Rightarrow> (real \<Rightarrow> real \<Rightarrow> nat \<Rightarrow> string)
      \<Rightarrow> (string \<Rightarrow> (real \<times> real) \<times> (real \<times> real) list) \<Rightarrow> (string \<Rightarrow> real \<times> real)
      \<Rightarrow> (cell \<Rightarrow> string) \<Rightarrow> table \<Rightarrow> table \<Rightarrow> table \<Rightarrow> string
      \<Rightarrow> py_error + (month_feature list \<times> (string \<times> json) list option \<times> (string \<times> json) list option)" where
  "update_map_data strptime ltc ctb ctl pystr df_311 df_shots df_hom_shot_matched date_value =
     (let selected_month = month_timestamp (date_string_to_year_month strptime date_value)
      in if ''month'' \<notin> set (cols df_311) then Inl (KeyError ''month'')
         else
           let df_month = df_311\<lparr>rws := filter (\<lambda>r. cell_at (cols df_311) r ''month'' = CTime selected_month)
                                            (rws df_311)\<rparr>
           in case rows_of_month selected_month df_shots of
                Inl e \<Rightarrow> Inl e
              | Inr shots_month \<Rightarrow>
                  (case rows_of_month selected_month df_hom_shot_matched of
                     Inl e \<Rightarrow> Inl e
                   | Inr homicides_month \<Rightarrow>
                       if df_empty df_month then Inr ([], None, None)
                       else
                         (case hex_group ltc pystr (cols df_month) (rws df_month) [] of
                            Inl e \<Rightarrow> Inl e
                          | Inr hex_to_points \<Rightarrow>
                              (case point_features pystr (cols df_shots) shots_month of
                                 Inl e \<Rightarrow> Inl e
                               | Inr shots_features \<Rightarrow>
                                   (case point_features pystr (cols df_hom_shot_matched) homicides_month of
                                      Inl e \<Rightarrow> Inl e
                                    | Inr hom_features \<Rightarrow>
                                        Inr (month_features ctb ctl hex_to_points,
                                             Some (feature_collection shots_features),
                                             Some (feature_collection hom_features)))))))"

text \<open>The feature of one cell in the all-time view.\<close>

record alltime_feature =
  af_hex_id :: string
  af_value :: real
  af_count :: nat
  af_lat :: real
  af_lon :: real
  af_coords :: "(real \<times> real) list"

text \<open>
  \<^verbatim>\<open>max([len(points) for points in hex_to_points.values()]) if hex_to_points else 1\<close>
\<close>

definition max_count :: "(string \<times> string list) list \<Rightarrow> nat" where
  "max_count hex_to_points =
     (case map (\<lambda>kv. length (snd kv)) hex_to_points of [] \<Rightarrow> 1 | n # ns \<Rightarrow> fold max ns n)"

text \<open>
  \<^verbatim>\<open>normalized_value = 1 + (count / max_value) * 9\<close>. The division is Python's true
  division, which raises on a zero divisor; the arithmetic is that of the real numbers.
\<close>

definition normalized_value :: "nat \<Rightarrow> nat \<Rightarrow> py_error + real" where
  "normalized_value cnt max_value =
     (if max_value = 0 then Inl ZeroDivisionError
      else Inr (1 + (real cnt / real max_value) * 9))"

fun alltime_features ::
    "(string \<Rightarrow> (real \<times> real) \<times> (real \<times> real) list) \<Rightarrow> (string \<Rightarrow> real \<times> real) \<Rightarrow> nat
      \<Rightarrow> (string \<times> string list) list \<Rightarrow> py_error + alltime_feature list" where
  "alltime_features ctb ctl max_value [] = Inr []"
| "alltime_features ctb ctl max_value (kv # m) =
     (case normalized_value (length (snd kv)) max_value of
        Inl e \<Rightarrow> Inl e
      | Inr v \<Rightarrow>
          (case alltime_features ctb ctl max_value m of
             Inl e \<Rightarrow> Inl e
           | Inr fs \<Rightarrow>
               Inr (\<lparr>af_hex_id = fst kv, af_value = v, af_count = length (snd kv),
                     af_lat = fst (ctl (fst kv)), af_lon = snd (ctl (fst kv)),
                     af_coords = ring (ctb (fst kv))\<rparr> # fs)))"

text \<open>
  \<^verbatim>\<open>
  def get_all_hexbin_data(_):
      df_all = df_311.copy()
      if df_all.empty:
          return {"type": "FeatureCollection", "features": []}
      resolution = 10
      hex_to_points = {} ... (the grouping loop)
      max_value = max([len(points) for points in hex_to_points.values()]) if hex_to_points else 1
      hex_features = [] ... (one feature per cell: value = normalized_value, count = count)
      return {"type": "FeatureCollection", "features": hex_features}
  \<close>
\<close>

definition get_all_hexbin_data ::
    "(real \<Rightarrow> real \<Rightarrow> nat \<Rightarrow> string) \<Rightarrow> (string \<Rightarrow> (real \<times> real) \<times> (real \<times> real) list)
      \<Rightarrow> (string \<Rightarrow> real \<times> real) \<Rightarrow> (cell \<Rightarrow> string) \<Rightarrow> table \<Rightarrow> py_error + alltime_feature list" where
  "get_all_hexbin_data ltc ctb ctl pystr df_311 =
     (if df_empty df_311 then Inr []
      else
        (case hex_group ltc pystr (cols df_311) (rws df_311) [] of
           Inl e \<Rightarrow> Inl e
         | Inr hex_to_points \<Rightarrow> alltime_features ctb ctl (max_count hex_to_points) hex_to_points))"

text \<open>
  \<^verbatim>\<open>
  def update_shot_count(selected, date_str):
      year, month = date_string_to_year_month(date_str)
      ts = pd.Timestamp(f"{year}-{month:02d}")
      df_month = df_shots[df_shots["date"].dt.to_period("M").dt.to_timestamp() == ts]
      hex_ids = selected.get("selected_hexbins", [])
      if not hex_ids:
          total = len(df_month)
          return total
      df_month = df_month.copy()
      df_month["cell"] = df_month.apply(
          lambda r: h3.latlng_to_cell(r.latitude, r.longitude, 10), axis=1)
      count = df_month[df_month["cell"].isin(hex_ids)].shape[0]
      return count
  \<close>
  \<open>selected\<close> is the selection store: a dict from a key to a list of strings.
\<close>

text \<open>The function of the row-wise \<^verbatim>\<open>apply\<close> on each row of a frame that has rows.\<close>

fun row_cells :: "(real \<Rightarrow> real \<Rightarrow> nat \<Rightarrow> string) \<Rightarrow> string list \<Rightarrow> cell list list \<Rightarrow> py_error + string list" where
  "row_cells ltc cs [] = Inr []"
| "row_cells ltc cs (r # rs) =
     (case row_hex ltc cs r of
        Inl e \<Rightarrow> Inl e
      | Inr c \<Rightarrow> (case row_cells ltc cs rs of Inl e \<Rightarrow> Inl e | Inr cells \<Rightarrow> Inr (c # cells)))"

text \<open>
  \<^verbatim>\<open>df_month["cell"] = df_month.apply(lambda r: ..., axis=1)\<close>. On a frame with rows
  \<^verbatim>\<open>apply\<close> gives the column of the results. On a frame without rows pandas does not
  call the function: \<^verbatim>\<open>apply\<close> returns a copy of the frame, and assigning a frame to
  the one column \<^verbatim>\<open>cell\<close> raises \<^verbatim>\<open>ValueError\<close> unless that frame has exactly one
  column.
\<close>

definition apply_cells :: "(real \<Rightarrow> real \<Rightarrow> nat \<Rightarrow> string) \<Rightarrow> string list \<Rightarrow> cell list list
    \<Rightarrow> py_error + string list" where
  "apply_cells ltc cs rows =
     (if rows = [] then
        (if length cs = 1 then Inr []
         else Inl (ValueError ''Cannot set a DataFrame with multiple columns to the single column cell''))
      else row_cells ltc cs rows)"

definition update_shot_count ::
    "(string \<Rightarrow> (int \<times> nat) option) \<Rightarrow> (real \<Rightarrow> real \<Rightarrow> nat \<Rightarrow> string) \<Rightarrow> table
      \<Rightarrow> (string \<times> string list) list \<Rightarrow> string \<Rightarrow> py_error + nat" where
  "update_shot_count strptime ltc df_shots selected date_str =
     (let ts = month_timestamp (date_string_to_year_month strptime date_str)
      in case rows_of_month ts df_shots of
           Inl e \<Rightarrow> Inl e
         | Inr df_month \<Rightarrow>
             let hex_ids = (case map_of selected ''selected_hexbins'' of None \<Rightarrow> [] | Some l \<Rightarrow> l)
             in if hex_ids = [] then Inr (length df_month)
                else
                  (case apply_cells ltc (cols df_shots) df_month of
                     Inl e \<Rightarrow> Inl e
                   | Inr cells \<Rightarrow> Inr (length (filter (\<lambda>c. c \<in> set hex_ids) cells))))"

text \<open>
  A row the aggregators can place: it has an id and two finite coordinates. The loaders
  leave only such rows (bounding box and \<^verbatim>\<open>dropna\<close>).
\<close>

definition placed_row :: "string list \<Rightarrow> cell list \<Rightarrow> bool" where
  "placed_row cs r =
     (case row_latlng cs r of Inl e \<Rightarrow> False | Inr p \<Rightarrow> rget cs r ''id'' \<noteq> None)"

text \<open>A row with two finite coordinates.\<close>

definition located_row :: "string list \<Rightarrow> cell list \<Rightarrow> bool" where
  "located_row cs r = (case row_latlng cs r of Inl e \<Rightarrow> False | Inr p \<Rightarrow> True)"

section \<open>Streaming record decoder\<close>

text \<open>
  Python's string operations on a list of characters. \<open>LF\<close> is the newline.
\<close>

definition LF :: char where
  "LF = CHR 0x0A"

text \<open>\<^verbatim>\<open>sep in s\<close> and \<^verbatim>\<open>s.find(sep)\<close>: the text before and after the first occurrence.\<close>

fun split_first :: "string \<Rightarrow> string \<Rightarrow> (string \<times> string) option" where
  "split_first sep [] = (if sep = [] then Some ([], []) else None)"
| "split_first sep (c # cs) =
     (if take (length sep) (c # cs) = sep then Some ([], drop (length sep) (c # cs))
      else (case split_first sep cs of None \<Rightarrow> None | Some (b, a) \<Rightarrow> Some (c # b, a)))"

definition contains :: "string \<Rightarrow> string \<Rightarrow> bool" where
  "contains sep s = (split_first sep s \<noteq> None)"

text \<open>\<^verbatim>\<open>buffer.replace("[\n", "")\<close>\<close>

fun remove_open :: "string \<Rightarrow> string" where
  "remove_open (a # b # cs) =
     (if a = CHR ''['' \<and> b = LF then remove_open cs else a # remove_open (b # cs))"
| "remove_open cs = cs"

text \<open>
  The characters that \<^verbatim>\<open>str.strip\<close> removes, those of \<^verbatim>\<open>str.isspace\<close>. A character
  of the model is a code point below 256: there the whitespace is U+0009 to U+000D, U+001C
  to U+0020, U+0085 and U+00A0.
\<close>

definition is_space :: "char \<Rightarrow> bool" where
  "is_space c =
     (let n = (of_char c :: nat)
      in (9 \<le> n \<and> n \<le> 13) \<or> (28 \<le> n \<and> n \<le> 32) \<or> n = 133 \<or> n = 160)"

definition lstrip :: "string \<Rightarrow> string" where
  "lstrip s = dropWhile is_space s"

definition rstrip :: "string \<Rightarrow> string" where
  "rstrip s = rev (dropWhile is_space (rev s))"

definition strip :: "string \<Rightarrow> string" where
  "strip s = rstrip (lstrip s)"

text \<open>\<^verbatim>\<open>s.endswith(t)\<close>\<close>

definition endswith :: "string \<Rightarrow> string \<Rightarrow> bool" where
  "endswith s t = (length t \<le> length s \<and> drop (length s - length t) s = t)"

text \<open>
  The inner loop of the decoder, entered with \<open>in_array\<close> set. It returns the text
  written so far, the rest of the buffer and the new value of \<open>in_array\<close>.
  \<^verbatim>\<open>
  while in_array:
      if ",\n" in buffer:
          obj_end = buffer.find(",\n")
          obj_text = buffer[:obj_end]
          json_data.write(obj_text + ",")
          buffer = buffer[obj_end + 2 :]
      elif "\n]" in buffer:
          obj_end = buffer.find("\n]")
          obj_text = buffer[:obj_end]
          if obj_text.strip():
              json_data.write(obj_text)
          json_data.write("]")
          buffer = buffer[obj_end + 2 :]
          in_array = False
          break
      else:
          break
  \<close>
\<close>

lemma split_first_shorter:
  "split_first sep s = Some (b, a) \<Longrightarrow> length a + length sep \<le> length s"
proof (induction s arbitrary: b)
  case Nil
  then show ?case by (simp split: if_splits)
next
  case (Cons c cs)
  show ?case
  proof (cases "take (length sep) (c # cs) = sep")
    case True
    with Cons.prems have a: "a = drop (length sep) (c # cs)" by simp
    have "length sep = length (take (length sep) (c # cs))"
      using True by simp
    also have "\<dots> \<le> length (c # cs)"
      by simp
    finally have "length sep \<le> length (c # cs)" .
    with a show ?thesis by simp
  next
    case False
    with Cons.prems obtain b' where "split_first sep cs = Some (b', a)"
      by (auto split: option.splits)
    from Cons.IH [OF this] show ?thesis by simp
  qed
qed

function drain :: "string \<Rightarrow> string \<Rightarrow> string \<times> string \<times> bool" where
  "drain json_data buffer =
     (case split_first [CHR '','', LF] buffer of
        Some (obj_text, rest) \<Rightarrow> drain (json_data @ obj_text @ '','') rest
      | None \<Rightarrow>
          (case split_first [LF, CHR '']''] buffer of
             Some (obj_text, rest) \<Rightarrow>
               (json_data @ (if strip obj_text \<noteq> [] then obj_text else []) @ '']'', rest, False)
           | None \<Rightarrow> (json_data, buffer, True)))"
  by pat_completeness auto
termination
proof (relation "measure (\<lambda>(json_data, buffer). length buffer)")
  show "wf (measure (\<lambda>(json_data, buffer). length buffer))" by simp
next
  fix json_data buffer :: string and x2 obj_text rest
  assume "split_first [CHR '','', LF] buffer = Some x2" and "(obj_text, rest) = x2"
  then have "split_first [CHR '','', LF] buffer = Some (obj_text, rest)" by simp
  from split_first_shorter [OF this]
  show "((json_data @ obj_text @ '','', rest), (json_data, buffer))
          \<in> measure (\<lambda>(json_data, buffer). length buffer)"
    by simp
qed

declare drain.simps [simp del]

text \<open>
  One pass of the loop over the chunks, on the state \<open>(json_data, buffer, in_array)\<close>.
  \<^verbatim>\<open>
  for chunk in response.iter_content(chunk_size=1024, decode_unicode=True):
      if not chunk:
          continue
      buffer += chunk
      if not in_array and "[\n" in buffer:
          in_array = True
          json_data.write("[")
          buffer = buffer.replace("[\n", "")
      while in_array: ...
  \<close>
\<close>

definition feed :: "string \<times> string \<times> bool \<Rightarrow> string \<Rightarrow> string \<times> string \<times> bool" where
  "feed st chunk =
     (case st of (json_data, buffer, in_array) \<Rightarrow>
        if chunk = [] then st
        else
          let buffer1 = buffer @ chunk;
              opened = (\<not> in_array \<and> contains [CHR ''['', LF] buffer1);
              json_data1 = (if opened then json_data @ ''['' else json_data);
              buffer2 = (if opened then remove_open buffer1 else buffer1);
              in_array1 = (in_array \<or> opened)
          in if in_array1 then drain json_data1 buffer2 else (json_data1, buffer2, False))"

text \<open>The text handed to the parser once the stream has ended.\<close>

definition assemble :: "string list \<Rightarrow> string" where
  "assemble chunks = fst (foldl feed ([], [], False) chunks)"

text \<open>
  The best-effort repair of a text that does not end in the closing bracket.
  \<^verbatim>\<open>
  if not json_str.rstrip().endswith("]"):
      if json_str.rstrip().endswith(","):
          json_str = json_str.rstrip()[:-1] + "]"
      else:
          json_str += "]"
  \<close>
\<close>

definition repair :: "string \<Rightarrow> string" where
  "repair json_str =
     (if \<not> endswith (rstrip json_str) '']'' then
        if endswith (rstrip json_str) '','' then butlast (rstrip json_str) @ '']''
        else json_str @ '']''
      else json_str)"

text \<open>
  \<open>read_json\<close> stands for \<^verbatim>\<open>pd.read_json(text, orient="records")\<close>: it gives a table or
  fails with the message of its exception.
  \<^verbatim>\<open>
  try:
      return pd.read_json(json_data, orient="records")
  except Exception as e:
      if "Unexpected end of file" in str(e) or "Empty data passed" in str(e):
          return pd.DataFrame()
      json_str = json_data.getvalue()
      if json_str.strip() and json_str.strip() != "[" and json_str.strip() != "[]":
          try:
              (the repair)
              return pd.read_json(io.StringIO(json_str), orient="records")
          except Exception:
              pass
      raise
  \<close>
\<close>

definition parse_or_repair :: "(string \<Rightarrow> string + table) \<Rightarrow> string \<Rightarrow> py_error + table" where
  "parse_or_repair read_json json_str =
     (case read_json json_str of
        Inr df \<Rightarrow> Inr df
      | Inl msg \<Rightarrow>
          if contains ''Unexpected end of file'' msg \<or> contains ''Empty data passed'' msg
          then Inr empty_table
          else if strip json_str \<noteq> [] \<and> strip json_str \<noteq> ''['' \<and> strip json_str \<noteq> ''[]''
          then (case read_json (repair json_str) of
                  Inr df \<Rightarrow> Inr df
                | Inl msg' \<Rightarrow> Inl (ValueError msg))
          else Inl (ValueError msg))"

text \<open>
  The answer of the backend to one request: the status, the body as text and the body as
  the chunks the stream delivers.
\<close>

record response =
  status_code :: int
  body_text :: string
  body_chunks :: "string list"

text \<open>
  \<^verbatim>\<open>
  def stream_to_dataframe(url):
      with requests.get(url, headers=headers, stream=True) as response:
          if response.status_code != 200:
              raise Exception(f"Error: {response.status_code} - {response.text}")
          ... (the loop over the chunks, then the parse)
  \<close>
  The request itself is made by the caller of this model, which passes the response.
\<close>

definition stream_to_dataframe :: "(string \<Rightarrow> string + table) \<Rightarrow> response \<Rightarrow> py_error + table" where
  "stream_to_dataframe read_json resp =
     (if status_code resp \<noteq> 200 then Inl (FetchError (status_code resp) (body_text resp))
      else parse_or_repair read_json (assemble (body_chunks resp)))"

text \<open>The double quote of a JSON text.\<close>

definition DQ :: char where
  "DQ = CHR 0x22"

text \<open>
  All the ways a text can reach the decoder as a sequence of non-empty chunks: each
  character opens a new chunk or joins the chunk that follows it.
\<close>

fun chunkings :: "string \<Rightarrow> string list list" where
  "chunkings [] = [[]]"
| "chunkings (x # xs) =
     concat (map (\<lambda>cs. case cs of [] \<Rightarrow> [[[x]]] | c # cs' \<Rightarrow> [[x] # c # cs', (x # c) # cs'])
                 (chunkings xs))"

section \<open>Dataset cache and loaders\<close>

text \<open>
  The world the loaders act on: the cache files, each with its modification time (seconds)
  and the table it holds, and the requests sent to the backend so far. A table written
  with \<^verbatim>\<open>to_parquet\<close> is read back unchanged by \<^verbatim>\<open>read_parquet\<close>. The backend is the
  function \<open>net\<close> from the URL to the response; the clock is read by the caller, who
  passes the time of each reading.
\<close>

record world =
  files :: "string \<rightharpoonup> real \<times> table"
  fetched :: "string list"

record config =
  cache_dir :: string
  api_base_url :: string

definition APP_VERSION :: string where
  "APP_VERSION = ''0.7.0''"

text \<open>\<^verbatim>\<open>os.path.join(dir, name)\<close> for a relative \<open>name\<close>.\<close>

definition path_join :: "string \<Rightarrow> string \<Rightarrow> string" where
  "path_join dir name =
     (if dir = [] \<or> last dir = CHR ''/'' then dir @ name else dir @ ''/'' @ name)"

text \<open>
  \<^verbatim>\<open>
  def cache_stale(path, max_age_minutes=30):
      return not os.path.exists(path) or (time.time() - os.path.getmtime(path)) > max_age_minutes * 60
  \<close>
\<close>

definition cache_stale :: "(string \<rightharpoonup> real \<times> table) \<Rightarrow> real \<Rightarrow> string \<Rightarrow> real \<Rightarrow> bool" where
  "cache_stale fs now path max_age_minutes =
     (case fs path of None \<Rightarrow> True | Some (mtime, df) \<Rightarrow> now - mtime > max_age_minutes * 60)"

text \<open>\<^verbatim>\<open>pd.read_parquet(path)\<close>\<close>

definition read_parquet :: "(string \<rightharpoonup> real \<times> table) \<Rightarrow> string \<Rightarrow> py_error + table" where
  "read_parquet fs path =
     (case fs path of None \<Rightarrow> Inl (FetchError 0 path) | Some (mtime, df) \<Rightarrow> Inr df)"

text \<open>The request of one URL: it is recorded, and the response is decoded.\<close>

definition fetch_table :: "(string \<Rightarrow> string + table) \<Rightarrow> (string \<Rightarrow> response) \<Rightarrow> string \<Rightarrow> world
    \<Rightarrow> (py_error + table) \<times> world" where
  "fetch_table read_json net url w =
     (stream_to_dataframe read_json (net url), w\<lparr>fetched := fetched w @ [url]\<rparr>)"




definition url_shots :: "config \<Rightarrow> string" where
  "url_shots cfg = api_base_url cfg
     @ ''/data/query?app_version='' @ APP_VERSION @ ''&request=911_shots_fired&stream=True''"

definition url_matched :: "config \<Rightarrow> string" where
  "url_matched cfg = api_base_url cfg
     @ ''/data/query?app_version='' @ APP_VERSION
     @ ''&request=911_homicides_and_shots_fired&stream=True''"

text \<open>\<^verbatim>\<open>df["date"].dt.date\<close>\<close>

fun day_cell :: "cell \<Rightarrow> cell" where
  "day_cell (CTime (TS y m d t)) = CDay y m d"
| "day_cell c = CNull"

text \<open>
  \<^verbatim>\<open>
  df = process_dataframe(df)
  df["ballistics_evidence"] = pd.to_numeric(df["ballistics_evidence"], errors="coerce")
  df["day"] = df["date"].dt.date
  df.dropna(subset=["latitude", "longitude", "date"], inplace=True)
  \<close>
\<close>

definition load_shots :: "(cell \<Rightarrow> pyfloat) \<Rightarrow> (cell \<Rightarrow> ts option) \<Rightarrow> table \<Rightarrow> py_error + table" where
  "load_shots to_numeric to_datetime raw =
     (case process_dataframe to_numeric to_datetime raw True True of
        Inl e \<Rightarrow> Inl e
      | Inr df \<Rightarrow>
          if ''ballistics_evidence'' \<notin> set (cols df) then Inl (KeyError ''ballistics_evidence'')
          else
            let df1 = assign ''ballistics_evidence''
                        (\<lambda>r. CNum (to_numeric (cell_at (cols df) r ''ballistics_evidence''))) df;
                df2 = assign ''day'' (\<lambda>r. day_cell (cell_at (cols df1) r ''date'')) df1
            in dropna [''latitude'', ''longitude'', ''date''] df2)"

text \<open>
  \<^verbatim>\<open>
  df_matched = process_dataframe(df_matched)
  df_matched.dropna(subset=["latitude", "longitude", "date"], inplace=True)
  \<close>
\<close>

definition load_matched :: "(cell \<Rightarrow> pyfloat) \<Rightarrow> (cell \<Rightarrow> ts option) \<Rightarrow> table \<Rightarrow> py_error + table" where
  "load_matched to_numeric to_datetime raw =
     (case process_dataframe to_numeric to_datetime raw True True of
        Inl e \<Rightarrow> Inl e
      | Inr df \<Rightarrow> dropna [''latitude'', ''longitude'', ''date''] df)"

text \<open>
  \<^verbatim>\<open>
  def get_shots_fired_data(force_refresh=False):
      cache_path_shots = os.path.join(Config.CACHE_DIR, "df_shots.parquet")
      cache_path_matched = os.path.join(Config.CACHE_DIR, "df_hom_shot_matched.parquet")
      if not force_refresh and not cache_stale(cache_path_shots) and not cache_stale(cache_path_matched):
          df = pd.read_parquet(cache_path_shots)
          df_matched = pd.read_parquet(cache_path_matched)
          return df, df_matched
      df = stream_to_dataframe(url) ... (processing of the shots)
      df_matched = stream_to_dataframe(url_matched) ... (processing of the matched homicides)
      df.to_parquet(cache_path_shots, index=False)
      df_matched.to_parquet(cache_path_matched, index=False)
      return df, df_matched
  \<close>
  \<open>now_s\<close> and \<open>now_m\<close> are the times read by the two calls of \<open>cache_stale\<close>,
  \<open>wnow_s\<close> and \<open>wnow_m\<close> the times at which the two cache files are written.
\<close>

definition get_shots_fired_data ::
    "(string \<Rightarrow> string + table) \<Rightarrow> (cell \<Rightarrow> pyfloat) \<Rightarrow> (cell \<Rightarrow> ts option) \<Rightarrow> (string \<Rightarrow> response)
      \<Rightarrow> config \<Rightarrow> bool \<Rightarrow> real \<Rightarrow> real \<Rightarrow> real \<Rightarrow> real \<Rightarrow> world
      \<Rightarrow> (py_error + table \<times> table) \<times> world" where
  "get_shots_fired_data read_json to_numeric to_datetime net cfg force_refresh now_s now_m wnow_s wnow_m w =
     (let cache_path_shots = path_join (cache_dir cfg) ''df_shots.parquet'';
          cache_path_matched = path_join (cache_dir cfg) ''df_hom_shot_matched.parquet''
      in if \<not> force_refresh \<and> \<not> cache_stale (files w) now_s cache_path_shots 30
              \<and> \<not> cache_stale (files w) now_m cache_path_matched 30
         then
           (case read_parquet (files w) cache_path_shots of
              Inl e \<Rightarrow> (Inl e, w)
            | Inr df \<Rightarrow>
                (case read_parquet (files w) cache_path_matched of
                   Inl e \<Rightarrow> (Inl e, w)
                 | Inr df_matched \<Rightarrow> (Inr (df, df_matched), w)))
         else
           (case fetch_table read_json net (url_shots cfg) w of
              (Inl e, w1) \<Rightarrow> (Inl e, w1)
            | (Inr raw, w1) \<Rightarrow>
                (case load_shots to_numeric to_datetime raw of
                   Inl e \<Rightarrow> (Inl e, w1)
                 | Inr df \<Rightarrow>
                     (case fetch_table read_json net (url_matched cfg) w1 of
                        (Inl e, w2) \<Rightarrow> (Inl e, w2)
                      | (Inr raw_matched, w2) \<Rightarrow>
                          (case load_matched to_numeric to_datetime raw_matched of
                             Inl e \<Rightarrow> (Inl e, w2)
                           | Inr df_matched \<Rightarrow>
                               (Inr (df, df_matched),
                                w2\<lparr>files := ((files w2)(cache_path_shots \<mapsto> (wnow_s, df)))
                                                (cache_path_matched \<mapsto> (wnow_m, df_matched))\<rparr>))))))"

section \<open>Batch resolve of record ids\<close>

text \<open>\<^verbatim>\<open>s.split(",")\<close> and \<^verbatim>\<open>",".join(xs)\<close>.\<close>

fun split_on :: "char \<Rightarrow> string \<Rightarrow> string list" where
  "split_on sep [] = [[]]"
| "split_on sep (c # cs) =
     (if c = sep then [] # split_on sep cs
      else (case split_on sep cs of [] \<Rightarrow> [[c]] | w # ws \<Rightarrow> (c # w) # ws))"

fun join :: "string \<Rightarrow> string list \<Rightarrow> string" where
  "join sep [] = []"
| "join sep [x] = x"
| "join sep (x # y # ys) = x @ sep @ join sep (y # ys)"

definition BATCH_SIZE :: nat where
  "BATCH_SIZE = 50"

text \<open>\<^verbatim>\<open>range(0, n, step)\<close> for a positive step.\<close>

definition py_range :: "nat \<Rightarrow> nat \<Rightarrow> nat list" where
  "py_range n step = map (\<lambda>k. k * step) [0 ..< (n + step - 1) div step]"

definition url_summary :: "config \<Rightarrow> string \<Rightarrow> string" where
  "url_summary cfg batch_id_str = api_base_url cfg
     @ ''/data/query?request=311_summary&category=all&stream=True&app_version='' @ APP_VERSION
     @ ''&event_ids='' @ batch_id_str"

definition url_summary_date :: "config \<Rightarrow> string \<Rightarrow> string" where
  "url_summary_date cfg event_date = api_base_url cfg
     @ ''/data/query?request=311_summary&category=all&stream=True&app_version='' @ APP_VERSION
     @ ''&date='' @ event_date"

text \<open>
  The loop over the batches, on the state \<open>(all_dfs, requests)\<close>: the tables decoded so
  far and the URLs requested so far.
  \<^verbatim>\<open>
  for i in range(0, len(id_list), BATCH_SIZE):
      batch_ids = id_list[i:i + BATCH_SIZE]
      batch_id_str = ",".join(batch_ids)
      url = (...)
      try:
          batch_df = stream_to_dataframe(url)
          all_dfs.append(batch_df)
      except Exception as e:
          continue
  \<close>
\<close>

fun fetch_batches :: "(string \<Rightarrow> string + table) \<Rightarrow> (string \<Rightarrow> response) \<Rightarrow> config \<Rightarrow> string list
    \<Rightarrow> nat list \<Rightarrow> table list \<times> string list \<Rightarrow> table list \<times> string list" where
  "fetch_batches read_json net cfg id_list [] st = st"
| "fetch_batches read_json net cfg id_list (i # is) st =
     (let batch_ids = take BATCH_SIZE (drop i id_list);
          batch_id_str = join '','' batch_ids;
          url = url_summary cfg batch_id_str
      in case stream_to_dataframe read_json (net url) of
           Inr batch_df \<Rightarrow>
             fetch_batches read_json net cfg id_list is (fst st @ [batch_df], snd st @ [url])
         | Inl e \<Rightarrow> fetch_batches read_json net cfg id_list is (fst st, snd st @ [url]))"

text \<open>
  \<^verbatim>\<open>pd.concat(all_dfs, ignore_index=True)\<close>: the columns of the tables in the order of
  their first appearance, the rows of the tables one after the other, a cell of a column
  its table does not have being null.
\<close>

definition unique :: "'a list \<Rightarrow> 'a list" where
  "unique xs = foldl (\<lambda>acc x. if x \<in> set acc then acc else acc @ [x]) [] xs"

definition pd_concat :: "table list \<Rightarrow> table" where
  "pd_concat dfs =
     (let cs = unique (concat (map cols dfs))
      in \<lparr>cols = cs,
          rws = concat (map (\<lambda>df. map (\<lambda>r. map (cell_at (cols df) r) cs) (rws df)) dfs)\<rparr>)"

text \<open>The sum of two floats.\<close>

fun flt_add :: "pyfloat \<Rightarrow> pyfloat \<Rightarrow> pyfloat" where
  "flt_add (Fin a) (Fin b) = Fin (a + b)"
| "flt_add NaN y = NaN"
| "flt_add x NaN = NaN"
| "flt_add PInf NInf = NaN"
| "flt_add NInf PInf = NaN"
| "flt_add PInf y = PInf"
| "flt_add x PInf = PInf"
| "flt_add NInf y = NInf"
| "flt_add x NInf = NInf"

text \<open>
  The sum of the cells of one group. On numbers and nulls it is the sum of the numbers that
  are not NaN, 0 for none. \<open>osum\<close> stands for what pandas does with a group that holds a
  cell of another kind.
\<close>

fun numeric :: "cell \<Rightarrow> bool" where
  "numeric (CNum f) = True"
| "numeric CNull = True"
| "numeric c = False"

fun nums :: "cell list \<Rightarrow> pyfloat list" where
  "nums [] = []"
| "nums (CNum NaN # vs) = nums vs"
| "nums (CNum f # vs) = f # nums vs"
| "nums (v # vs) = nums vs"

definition group_sum :: "(cell list \<Rightarrow> py_error + cell) \<Rightarrow> cell list \<Rightarrow> py_error + cell" where
  "group_sum osum vs =
     (if list_all numeric vs then Inr (CNum (foldl flt_add (Fin 0) (nums vs))) else osum vs)"

text \<open>The results of a list of steps, or the first error.\<close>

fun collect :: "('e + 'a) list \<Rightarrow> 'e + 'a list" where
  "collect [] = Inr []"
| "collect (Inl e # xs) = Inl e"
| "collect (Inr x # xs) = (case collect xs of Inl e \<Rightarrow> Inl e | Inr ys \<Rightarrow> Inr (x # ys))"

text \<open>Sorting by insertion; \<open>le\<close> stands for the order in which pandas sorts the group keys.\<close>

fun insert_sorted :: "('a \<Rightarrow> 'a \<Rightarrow> bool) \<Rightarrow> 'a \<Rightarrow> 'a list \<Rightarrow> 'a list" where
  "insert_sorted le x [] = [x]"
| "insert_sorted le x (y # ys) = (if le x y then x # y # ys else y # insert_sorted le x ys)"

definition sort_by :: "('a \<Rightarrow> 'a \<Rightarrow> bool) \<Rightarrow> 'a list \<Rightarrow> 'a list" where
  "sort_by le xs = foldr (insert_sorted le) xs []"

text \<open>
  \<^verbatim>\<open>df.groupby(key, as_index=False)[val].sum()\<close>: one row per key that is not null, the
  keys sorted, with the sum of the group's cells of \<open>val\<close>.
\<close>

definition groupby_sum :: "(cell \<Rightarrow> cell \<Rightarrow> bool) \<Rightarrow> (cell list \<Rightarrow> py_error + cell) \<Rightarrow> string \<Rightarrow> string
    \<Rightarrow> table \<Rightarrow> py_error + table" where
  "groupby_sum le osum key val df =
     (let keys = sort_by le (unique (filter (\<lambda>k. \<not> is_null k)
                                    (map (\<lambda>r. cell_at (cols df) r key) (rws df))))
      in case collect (map (\<lambda>k. group_sum osum
                               (map (\<lambda>r. cell_at (cols df) r val)
                                    (filter (\<lambda>r. cell_at (cols df) r key = k) (rws df)))) keys) of
           Inl e \<Rightarrow> Inl e
         | Inr tots \<Rightarrow> Inr \<lparr>cols = [key, val], rws = map (\<lambda>ks. [fst ks, snd ks]) (zip keys tots)\<rparr>)"

text \<open>
  \<^verbatim>\<open>
  def get_select_311_data(event_ids="", event_date=""):
      if event_ids:
          id_list = event_ids.split(",")
          BATCH_SIZE = 50
          all_dfs = []
          for i in range(0, len(id_list), BATCH_SIZE): ... (the loop over the batches)
          if all_dfs:
              df = pd.concat(all_dfs, ignore_index=True)
              if "reported_issue" in df.columns and "total" in df.columns:
                  df = df.groupby("reported_issue", as_index=False)["total"].sum()
              df.to_csv('311_dash.csv', index=False)
              return df.to_csv(index=False)
          else:
              return ""
      elif event_date:
          url = (...)
          df = stream_to_dataframe(url)
          df.to_csv('311_dash.csv', index=False)
          return df.to_csv(index=False)
      else:
          return ""
  \<close>
  \<open>to_csv\<close> stands for \<^verbatim>\<open>df.to_csv(index=False)\<close>. The result is what the function returns
  or raises, the URLs it has requested, in order, and the text it has written to
  \<^verbatim>\<open>311_dash.csv\<close>, if any.
\<close>

definition get_select_311_data ::
    "(string \<Rightarrow> string + table) \<Rightarrow> (string \<Rightarrow> response) \<Rightarrow> (table \<Rightarrow> string) \<Rightarrow> (cell \<Rightarrow> cell \<Rightarrow> bool)
      \<Rightarrow> (cell list \<Rightarrow> py_error + cell) \<Rightarrow> config \<Rightarrow> string \<Rightarrow> string
      \<Rightarrow> (py_error + string) \<times> string list \<times> string option" where
  "get_select_311_data read_json net to_csv le osum cfg event_ids event_date =
     (if event_ids \<noteq> [] then
        let id_list = split_on (CHR '','') event_ids;
            st = fetch_batches read_json net cfg id_list (py_range (length id_list) BATCH_SIZE) ([], []);
            all_dfs = fst st
        in if all_dfs \<noteq> [] then
             let df = pd_concat all_dfs
             in case (if ''reported_issue'' \<in> set (cols df) \<and> ''total'' \<in> set (cols df)
                      then groupby_sum le osum ''reported_issue'' ''total'' df else Inr df) of
                  Inl e \<Rightarrow> (Inl e, snd st, None)
                | Inr df' \<Rightarrow> (Inr (to_csv df'), snd st, Some (to_csv df'))
           else (Inr [], snd st, None)
      else if event_date \<noteq> [] then
        (case stream_to_dataframe read_json (net (url_summary_date cfg event_date)) of
           Inl e \<Rightarrow> (Inl e, [url_summary_date cfg event_date], None)
         | Inr df \<Rightarrow> (Inr (to_csv df), [url_summary_date cfg event_date], Some (to_csv df)))
      else (Inr [], [], None))"

text \<open>
  \<^verbatim>\<open>
  def compute_area_category_counts(event_ids, date_str):
      if not event_ids:
          return {}
      csv_str = get_select_311_data(event_ids=",".join(event_ids), event_date="")
      df_area = pd.read_csv(io.StringIO(csv_str))
      cols = df_area.columns.tolist()
      if "reported_issue" in df_area.columns and "total" in df_area.columns:
          label_col = "reported_issue"
          value_col = "total"
      else:
          label_col, value_col = cols[:2]
      counts = dict(zip(df_area[label_col], df_area[value_col]))
      return counts
  \<close>
  \<open>read_csv\<close> stands for \<^verbatim>\<open>pd.read_csv\<close> on a text and \<open>mk_dict\<close> for Python's
  \<^verbatim>\<open>dict\<close> on a list of pairs.
\<close>

definition column :: "table \<Rightarrow> string \<Rightarrow> cell list" where
  "column df c = map (\<lambda>r. cell_at (cols df) r c) (rws df)"

definition label_value_cols :: "string list \<Rightarrow> py_error + (string \<times> string)" where
  "label_value_cols cs =
     (if ''reported_issue'' \<in> set cs \<and> ''total'' \<in> set cs then Inr (''reported_issue'', ''total'')
      else (case take 2 cs of
              [label_col, value_col] \<Rightarrow> Inr (label_col, value_col)
            | _ \<Rightarrow> Inl (ValueError ''not enough values to unpack'')))"

definition compute_area_category_counts ::
    "(string \<Rightarrow> string + table) \<Rightarrow> (string \<Rightarrow> response) \<Rightarrow> (table \<Rightarrow> string) \<Rightarrow> (string \<Rightarrow> py_error + table)
      \<Rightarrow> ((cell \<times> cell) list \<Rightarrow> 'd) \<Rightarrow> (cell \<Rightarrow> cell \<Rightarrow> bool) \<Rightarrow> (cell list \<Rightarrow> py_error + cell)
      \<Rightarrow> config \<Rightarrow> string list \<Rightarrow> string
      \<Rightarrow> (py_error + 'd) \<times> string list \<times> string option" where
  "compute_area_category_counts read_json net to_csv read_csv mk_dict le osum cfg event_ids date_str =
     (if event_ids = [] then (Inr (mk_dict []), [], None)
      else
        (case get_select_311_data read_json net to_csv le osum cfg (join '','' event_ids) [] of
           (Inl e, reqs, wr) \<Rightarrow> (Inl e, reqs, wr)
         | (Inr csv_str, reqs, wr) \<Rightarrow>
             (case read_csv csv_str of
                Inl e \<Rightarrow> (Inl e, reqs, wr)
              | Inr df_area \<Rightarrow>
                  (case label_value_cols (cols df_area) of
                     Inl e \<Rightarrow> (Inl e, reqs, wr)
                   | Inr lv \<Rightarrow>
                       (Inr (mk_dict (zip (column df_area (fst lv)) (column df_area (snd lv)))),
                        reqs, wr)))))"

text \<open>The sum of the finite totals of the rows of a table that carry the label \<open>k\<close>.\<close>

fun finite_total :: "cell \<Rightarrow> real" where
  "finite_total (CNum (Fin x)) = x"
| "finite_total c = 0"

definition label_total :: "table \<Rightarrow> cell \<Rightarrow> real" where
  "label_total df k =
     sum_list (map (\<lambda>r. finite_total (cell_at (cols df) r ''total''))
                   (filter (\<lambda>r. cell_at (cols df) r ''reported_issue'' = k) (rws df)))"

text \<open>A cell that holds a finite number or is null.\<close>

fun finite_or_null :: "cell \<Rightarrow> bool" where
  "finite_or_null (CNum (Fin x)) = True"
| "finite_or_null (CNum NaN) = True"
| "finite_or_null CNull = True"
| "finite_or_null c = False"

text \<open>
  What one batch of ids adds to the tables: the table decoded from the answer to its
  request, or nothing when the request or the decoding raises.
\<close>

definition batch_tables :: "(string \<Rightarrow> string + table) \<Rightarrow> (string \<Rightarrow> response) \<Rightarrow> config \<Rightarrow> string list
    \<Rightarrow> table list" where
  "batch_tables read_json net cfg b =
     (case stream_to_dataframe read_json (net (url_summary cfg (join '','' b))) of
        Inr df \<Rightarrow> [df]
      | Inl e \<Rightarrow> [])"

section \<open>Properties of the table operations\<close>

lemma length_put: "length (put cs c v r) = length r"
  by (induction cs c v r rule: put.induct) auto

lemma cell_at_put:
  "c \<in> set cs \<Longrightarrow> length r = length cs \<Longrightarrow>
     cell_at cs (put cs c v r) c' = (if c' = c then v else cell_at cs r c')"
proof (induction cs c v r rule: put.induct)
  case (1 k ks c v x xs)
  then show ?case by (auto simp: cell_at_def rget_def)
qed simp_all

lemma cell_at_snoc:
  assumes "length r = length cs" and "c \<notin> set cs"
  shows "cell_at (cs @ [c]) (r @ [v]) c' = (if c' = c then v else cell_at cs r c')"
proof -
  have z: "zip (cs @ [c]) (r @ [v]) = zip cs r @ [(c, v)]"
    using assms(1) by simp
  have n: "map_of (zip cs r) c = None"
    using assms by (auto simp: map_of_eq_None_iff dest: set_zip_leftD)
  show ?thesis
    unfolding cell_at_def rget_def z map_of_append
    using n by (auto simp: map_add_def split: option.splits)
qed

lemma length_row_assign:
  "length (row_assign cs c f r) = (if c \<in> set cs then length r else Suc (length r))"
  by (simp add: row_assign_def length_put)

lemma cols_assign: "cols (assign c f df) = (if c \<in> set (cols df) then cols df else cols df @ [c])"
  by (simp add: assign_def)

lemma rws_assign: "rws (assign c f df) = map (row_assign (cols df) c f) (rws df)"
  by (simp add: assign_def)

lemma cell_at_row_assign:
  assumes "length r = length (cols df)"
  shows "cell_at (cols (assign c f df)) (row_assign (cols df) c f r) c'
           = (if c' = c then f r else cell_at (cols df) r c')"
proof (cases "c \<in> set (cols df)")
  case True
  with assms show ?thesis
    by (simp add: cols_assign row_assign_def cell_at_put)
next
  case False
  with assms show ?thesis
    by (simp add: cols_assign row_assign_def cell_at_snoc)
qed

lemma wf_assign: "wf_table df \<Longrightarrow> wf_table (assign c f df)"
  by (auto simp: wf_table_def list_all_iff cols_assign rws_assign length_row_assign)

lemma cell_at_two_assign:
  assumes len: "length r = length cs" and c1: "c1 \<in> set cs" and c2: "c2 \<in> set cs"
  shows "cell_at cs (row_assign cs c2 f2 (row_assign cs c1 f1 r)) c =
           (if c = c2 then f2 (row_assign cs c1 f1 r)
            else if c = c1 then f1 r else cell_at cs r c)"
proof -
  have l1: "length (put cs c1 (f1 r) r) = length cs"
    using len by (simp add: length_put)
  have "cell_at cs (put cs c2 (f2 (put cs c1 (f1 r) r)) (put cs c1 (f1 r) r)) c =
          (if c = c2 then f2 (put cs c1 (f1 r) r) else cell_at cs (put cs c1 (f1 r) r) c)"
    using cell_at_put [OF c2 l1] by simp
  also have "cell_at cs (put cs c1 (f1 r) r) c = (if c = c1 then f1 r else cell_at cs r c)"
    using cell_at_put [OF c1 len] by simp
  finally show ?thesis
    using c1 c2 by (simp add: row_assign_def)
qed

section \<open>Properties of the grouping loop\<close>

lemma setdefault_append_keys:
  "map fst (setdefault_append k v m) = (if k \<in> set (map fst m) then map fst m else map fst m @ [k])"
  by (induction m) (force+)

lemma setdefault_append_distinct:
  "distinct (map fst m) \<Longrightarrow> distinct (map fst (setdefault_append k v m))"
  by (simp add: setdefault_append_keys)

lemma setdefault_append_lookup:
  "map_of (setdefault_append k v m) h =
     (if h = k then Some ((case map_of m k of None \<Rightarrow> [] | Some l \<Rightarrow> l) @ [v]) else map_of m h)"
  by (induction m) auto

lemma setdefault_append_total:
  "sum_list (map (\<lambda>kv. length (snd kv)) (setdefault_append k v m))
     = Suc (sum_list (map (\<lambda>kv. length (snd kv)) m))"
  by (induction m) auto

lemma setdefault_append_mset:
  "mset (concat (map snd (setdefault_append k v m))) = add_mset v (mset (concat (map snd m)))"
  by (induction m) auto

lemma placed_row_hex:
  assumes "placed_row cs r"
  shows "\<exists>h c. row_hex ltc cs r = Inr h \<and> rget cs r ''id'' = Some c"
proof (cases "row_latlng cs r")
  case (Inl e)
  with assms show ?thesis by (simp add: placed_row_def)
next
  case (Inr p)
  with assms show ?thesis by (auto simp: placed_row_def row_hex_def)
qed

lemma hex_group_succeeds:
  "list_all (placed_row cs) rs \<Longrightarrow> \<exists>m. hex_group ltc pystr cs rs acc = Inr m"
proof (induction rs arbitrary: acc)
  case Nil
  then show ?case by simp
next
  case (Cons r rs)
  from Cons.prems obtain h c where "row_hex ltc cs r = Inr h" "rget cs r ''id'' = Some c"
    using placed_row_hex [of cs r ltc] by auto
  moreover from Cons.prems have "list_all (placed_row cs) rs" by simp
  ultimately show ?case using Cons.IH by simp
qed

lemma hex_group_step:
  assumes "hex_group ltc pystr cs (r # rs) acc = Inr m"
  obtains h c where "row_hex ltc cs r = Inr h" and "rget cs r ''id'' = Some c"
    and "hex_group ltc pystr cs rs (setdefault_append h (pystr c) acc) = Inr m"
  using assms by (auto split: sum.splits option.splits)

lemma cell_at_Some: "rget cs r c = Some v \<Longrightarrow> cell_at cs r c = v"
  by (simp add: cell_at_def)

lemma hex_group_total:
  "hex_group ltc pystr cs rs acc = Inr m \<Longrightarrow>
     sum_list (map (\<lambda>kv. length (snd kv)) m) = sum_list (map (\<lambda>kv. length (snd kv)) acc) + length rs"
proof (induction rs arbitrary: acc)
  case Nil
  then show ?case by simp
next
  case (Cons r rs)
  from Cons.prems obtain h c where
    "hex_group ltc pystr cs rs (setdefault_append h (pystr c) acc) = Inr m"
    by (rule hex_group_step)
  from Cons.IH [OF this] show ?case by (simp add: setdefault_append_total)
qed

lemma hex_group_mset:
  "hex_group ltc pystr cs rs acc = Inr m \<Longrightarrow>
     mset (concat (map snd m))
       = mset (concat (map snd acc)) + mset (map (\<lambda>r. pystr (cell_at cs r ''id'')) rs)"
proof (induction rs arbitrary: acc)
  case Nil
  then show ?case by simp
next
  case (Cons r rs)
  from Cons.prems obtain h c where c: "rget cs r ''id'' = Some c"
    and rest: "hex_group ltc pystr cs rs (setdefault_append h (pystr c) acc) = Inr m"
    by (rule hex_group_step)
  from Cons.IH [OF rest] cell_at_Some [OF c] show ?case
    by (simp add: setdefault_append_mset)
qed

lemma hex_group_distinct:
  "hex_group ltc pystr cs rs acc = Inr m \<Longrightarrow> distinct (map fst acc) \<Longrightarrow> distinct (map fst m)"
proof (induction rs arbitrary: acc)
  case Nil
  then show ?case by simp
next
  case (Cons r rs)
  from Cons.prems(1) obtain h c where
    rest: "hex_group ltc pystr cs rs (setdefault_append h (pystr c) acc) = Inr m"
    by (rule hex_group_step)
  from Cons.IH [OF rest] Cons.prems(2) show ?case
    by (simp add: setdefault_append_distinct)
qed

lemma hex_group_lookup:
  "hex_group ltc pystr cs rs acc = Inr m \<Longrightarrow>
     (case map_of m k of None \<Rightarrow> [] | Some l \<Rightarrow> l)
       = (case map_of acc k of None \<Rightarrow> [] | Some l \<Rightarrow> l)
           @ map (\<lambda>r. pystr (cell_at cs r ''id'')) (filter (\<lambda>r. row_hex ltc cs r = Inr k) rs)"
proof (induction rs arbitrary: acc)
  case Nil
  then show ?case by simp
next
  case (Cons r rs)
  from Cons.prems obtain h c where h: "row_hex ltc cs r = Inr h"
    and c: "rget cs r ''id'' = Some c"
    and rest: "hex_group ltc pystr cs rs (setdefault_append h (pystr c) acc) = Inr m"
    by (rule hex_group_step)
  from Cons.IH [OF rest] h cell_at_Some [OF c] show ?case
    by (simp add: setdefault_append_lookup)
qed

lemma hex_group_keys:
  "hex_group ltc pystr cs rs acc = Inr m \<Longrightarrow>
     set (map fst m) = set (map fst acc) \<union> {h. \<exists>r \<in> set rs. row_hex ltc cs r = Inr h}"
proof (induction rs arbitrary: acc)
  case Nil
  then show ?case by simp
next
  case (Cons r rs)
  from Cons.prems obtain h c where h: "row_hex ltc cs r = Inr h"
    and rest: "hex_group ltc pystr cs rs (setdefault_append h (pystr c) acc) = Inr m"
    by (rule hex_group_step)
  from Cons.IH [OF rest] h show ?case
    by (auto simp: setdefault_append_keys)
qed

lemma distinct_concat_disjoint:
  "distinct (concat xss) \<Longrightarrow> i < j \<Longrightarrow> j < length xss \<Longrightarrow> set (xss ! i) \<inter> set (xss ! j) = {}"
proof (induction xss arbitrary: i j)
  case Nil
  then show ?case by simp
next
  case (Cons xs xss)
  from Cons.prems(2) obtain j' where j: "j = Suc j'" by (cases j) auto
  show ?case
  proof (cases i)
    case 0
    from Cons.prems j have "xss ! j' \<in> set xss" by simp
    with Cons.prems(1) 0 j show ?thesis by auto
  next
    case (Suc i')
    with Cons.prems j Cons.IH [of i' j'] show ?thesis by simp
  qed
qed

lemma rget_present:
  "c \<in> set cs \<Longrightarrow> length r = length cs \<Longrightarrow> \<exists>v. rget cs r c = Some v"
proof -
  assume c: "c \<in> set cs" and len: "length r = length cs"
  have "map fst (zip cs r) = cs" using len by simp
  with c have "c \<in> fst ` set (zip cs r)" by (metis set_map)
  then have "map_of (zip cs r) c \<noteq> None" by (simp add: map_of_eq_None_iff)
  then show ?thesis by (auto simp: rget_def)
qed

lemma point_features_succeeds:
  "list_all (\<lambda>r. length r = length cs) rs \<Longrightarrow> ''longitude'' \<in> set cs \<Longrightarrow> ''latitude'' \<in> set cs \<Longrightarrow>
     \<exists>fs. point_features pystr cs rs = Inr fs \<and> length fs = length rs"
proof (induction rs)
  case Nil
  then show ?case by simp
next
  case (Cons r rs)
  from Cons.prems have len: "length r = length cs" by simp
  from rget_present [OF Cons.prems(2) len] obtain lo where lo: "rget cs r ''longitude'' = Some lo" by blast
  from rget_present [OF Cons.prems(3) len] obtain la where la: "rget cs r ''latitude'' = Some la" by blast
  from lo la obtain f where f: "point_json pystr cs r = Inr f"
    by (simp add: point_json_def Let_def)
  from Cons.IH Cons.prems obtain fs where "point_features pystr cs rs = Inr fs" "length fs = length rs"
    by auto
  with f show ?case by simp
qed

lemma rows_of_month_succeeds:
  assumes "wf_table df" and "''date'' \<in> set (cols df)"
  shows "\<exists>rs. rows_of_month sel df = Inr rs \<and> list_all (\<lambda>r. length r = length (cols df)) rs"
  using assms by (auto simp: rows_of_month_def wf_table_def list_all_iff)

lemma month_features_values:
  "map mf_value (month_features ctb ctl m) = map (\<lambda>kv. length (snd kv)) m"
  "map mf_ids (month_features ctb ctl m) = map snd m"
  "map mf_hex_id (month_features ctb ctl m) = map fst m"
  by (simp_all add: month_features_def comp_def)

lemma month_features_member:
  "f \<in> set (month_features ctb ctl m) \<Longrightarrow>
     (mf_hex_id f, mf_ids f) \<in> set m \<and> mf_value f = length (mf_ids f)"
  by (auto simp: month_features_def)

lemma hex_group_cells:
  assumes g: "hex_group ltc pystr cs rs [] = Inr m" and kv: "(k, ids) \<in> set m"
  shows "ids = map (\<lambda>r. pystr (cell_at cs r ''id'')) (filter (\<lambda>r. row_hex ltc cs r = Inr k) rs)"
    and "ids \<noteq> []"
proof -
  have d: "distinct (map fst m)" using hex_group_distinct [OF g] by simp
  with kv have "map_of m k = Some ids" by simp
  with hex_group_lookup [OF g, of k]
  show ids: "ids = map (\<lambda>r. pystr (cell_at cs r ''id'')) (filter (\<lambda>r. row_hex ltc cs r = Inr k) rs)"
    by simp
  from kv have "k \<in> set (map fst m)" by force
  with hex_group_keys [OF g] obtain r where "r \<in> set rs" "row_hex ltc cs r = Inr k" by auto
  then have "filter (\<lambda>r. row_hex ltc cs r = Inr k) rs \<noteq> []"
    by (auto simp: filter_empty_conv)
  with ids show "ids \<noteq> []" by simp
qed

section \<open>Properties of the record normalizer\<close>

lemma box_iff:
  "(flt_gt la 40 \<and> flt_lt la 43 \<and> flt_gt lo (- 72) \<and> flt_lt lo (- 70))
     = (\<exists>a b. la = Fin a \<and> lo = Fin b \<and> 40 < a \<and> a < 43 \<and> - 72 < b \<and> b < - 70)"
  by (cases la; cases lo) simp_all

lemma loc_row_cells:
  assumes len: "length r = length cs"
    and lat: "''latitude'' \<in> set cs" and lon: "''longitude'' \<in> set cs"
  shows "cell_at cs (row_assign cs ''longitude'' (\<lambda>r. CNum (num (cell_at cs r ''longitude'')))
                      (row_assign cs ''latitude'' (\<lambda>r. CNum (num (cell_at cs r ''latitude''))) r)) c
          = (if c = ''longitude'' then CNum (num (cell_at cs r ''longitude''))
             else if c = ''latitude'' then CNum (num (cell_at cs r ''latitude''))
             else cell_at cs r c)"
proof -
  have "cell_at cs (row_assign cs ''latitude'' (\<lambda>r. CNum (num (cell_at cs r ''latitude''))) r) ''longitude''
          = cell_at cs r ''longitude''"
    using cell_at_put [OF lat len, of _ "''longitude''"] lat by (simp add: row_assign_def)
  then show ?thesis
    using cell_at_two_assign [OF len lat lon, of "\<lambda>r. CNum (num (cell_at cs r ''longitude''))"
            "\<lambda>r. CNum (num (cell_at cs r ''latitude''))" c]
    by simp
qed

lemma loc_row_in_box:
  assumes len: "length r = length cs"
    and lat: "''latitude'' \<in> set cs" and lon: "''longitude'' \<in> set cs"
  shows "in_box cs (row_assign cs ''longitude'' (\<lambda>r. CNum (num (cell_at cs r ''longitude'')))
                      (row_assign cs ''latitude'' (\<lambda>r. CNum (num (cell_at cs r ''latitude''))) r))
          = (\<exists>a b. num (cell_at cs r ''latitude'') = Fin a \<and> num (cell_at cs r ''longitude'') = Fin b
                \<and> 40 < a \<and> a < 43 \<and> - 72 < b \<and> b < - 70)"
  unfolding in_box_def flt_at_def loc_row_cells [OF len lat lon]
  by (simp add: box_iff)

lemma process_location_rows:
  fixes num :: "cell \<Rightarrow> pyfloat" and df :: table
  defines "g \<equiv> \<lambda>r. row_assign (cols df) ''longitude'' (\<lambda>r. CNum (num (cell_at (cols df) r ''longitude'')))
                      (row_assign (cols df) ''latitude'' (\<lambda>r. CNum (num (cell_at (cols df) r ''latitude''))) r)"
  assumes lat: "''latitude'' \<in> set (cols df)"
    and lon: "''longitude'' \<in> set (cols df)"
    and wf: "wf_table df"
  shows "process_location num df =
           Inr \<lparr>cols = cols df,
                rws = map g
                        (filter (\<lambda>r. \<exists>a b. num (cell_at (cols df) r ''latitude'') = Fin a
                                   \<and> num (cell_at (cols df) r ''longitude'') = Fin b
                                   \<and> 40 < a \<and> a < 43 \<and> - 72 < b \<and> b < - 70) (rws df))\<rparr>"
proof -
  let ?cs = "cols df"
  let ?df1 = "assign ''latitude'' (\<lambda>r. CNum (num (cell_at ?cs r ''latitude''))) df"
  let ?df2 = "assign ''longitude'' (\<lambda>r. CNum (num (cell_at ?cs r ''longitude''))) ?df1"
  let ?P = "\<lambda>r. \<exists>a b. num (cell_at ?cs r ''latitude'') = Fin a
                   \<and> num (cell_at ?cs r ''longitude'') = Fin b
                   \<and> 40 < a \<and> a < 43 \<and> - 72 < b \<and> b < - 70"
  have c1: "cols ?df1 = ?cs" using lat by (simp add: cols_assign)
  have c2: "cols ?df2 = ?cs" using lon c1 by (simp add: cols_assign)
  have r2: "rws ?df2 = map g (rws df)"
    by (simp add: rws_assign c1 g_def)
  have len: "length r = length ?cs" if "r \<in> set (rws df)" for r
    using wf that by (simp add: wf_table_def list_all_iff)
  have box: "in_box ?cs (g r) = ?P r" if "r \<in> set (rws df)" for r
    unfolding g_def by (rule loc_row_in_box [OF len [OF that] lat lon])
  have fl: "filter (\<lambda>r. in_box ?cs (g r)) (rws df) = filter ?P (rws df)"
    by (rule filter_cong [OF refl]) (rule box)
  have "filter (in_box ?cs) (map g (rws df)) = map g (filter (\<lambda>r. in_box ?cs (g r)) (rws df))"
    by (simp add: filter_map comp_def)
  with fl have f: "filter (in_box ?cs) (rws ?df2) = map g (filter ?P (rws df))"
    by (simp only: r2)
  have "process_location num df = Inr (?df2\<lparr>rws := filter (in_box (cols ?df2)) (rws ?df2)\<rparr>)"
    using lat lon c1 by (simp add: process_location_def Let_def)
  also have "\<dots> = Inr \<lparr>cols = ?cs, rws = map g (filter ?P (rws df))\<rparr>"
    unfolding c2 f using c2 by simp
  finally show ?thesis .
qed

lemma process_date_rows:
  fixes dt :: "cell \<Rightarrow> ts option" and df :: table
  defines "h \<equiv> \<lambda>r. row_assign (cols df) ''month'' (\<lambda>r. month_cell (cell_at (cols df) r ''date''))
                      (row_assign (cols df) ''date'' (\<lambda>r. date_cell dt (cell_at (cols df) r ''date'')) r)"
  assumes dat: "''date'' \<in> set (cols df)"
    and wf: "wf_table df"
  shows "\<exists>df'. process_date dt df = Inr df' \<and> rws df' = map h (rws df)
           \<and> (\<forall>r c. length r = length (cols df) \<longrightarrow> cell_at (cols df') (h r) c =
                 (if c = ''month'' then month_cell (date_cell dt (cell_at (cols df) r ''date''))
                  else if c = ''date'' then date_cell dt (cell_at (cols df) r ''date'')
                  else cell_at (cols df) r c))"
proof -
  let ?cs = "cols df"
  let ?f = "\<lambda>r. date_cell dt (cell_at ?cs r ''date'')"
  let ?m = "\<lambda>r. month_cell (cell_at ?cs r ''date'')"
  let ?df1 = "assign ''date'' ?f df"
  let ?df2 = "assign ''month'' ?m ?df1"
  have c1: "cols ?df1 = ?cs" using dat by (simp add: cols_assign)
  have res: "process_date dt df = Inr ?df2"
    using dat c1 by (simp add: process_date_def Let_def)
  have rows: "rws ?df2 = map h (rws df)"
    by (simp add: rws_assign c1 h_def)
  have cells: "cell_at (cols ?df2) (h r) c =
                 (if c = ''month'' then month_cell (date_cell dt (cell_at ?cs r ''date''))
                  else if c = ''date'' then date_cell dt (cell_at ?cs r ''date'')
                  else cell_at ?cs r c)" if len: "length r = length ?cs" for r c
  proof -
    have len1: "length (row_assign ?cs ''date'' ?f r) = length (cols ?df1)"
      using len dat c1 by (simp add: length_row_assign)
    have a1: "cell_at ?cs (row_assign ?cs ''date'' ?f r) c' =
                (if c' = ''date'' then ?f r else cell_at ?cs r c')" for c'
      using cell_at_row_assign [OF len, of "''date''" ?f c'] c1 by simp
    have "cell_at (cols ?df2) (row_assign (cols ?df1) ''month'' ?m (row_assign ?cs ''date'' ?f r)) c =
            (if c = ''month'' then ?m (row_assign ?cs ''date'' ?f r)
             else cell_at (cols ?df1) (row_assign ?cs ''date'' ?f r) c)"
      by (rule cell_at_row_assign [OF len1])
    then show ?thesis
      unfolding c1 h_def using a1 by simp
  qed
  from res rows cells show ?thesis by blast
qed

text \<open>
  Claim C4. With \<open>location_columns\<close> set, the normalizer keeps exactly the rows whose
  coerced latitude lies strictly between 40 and 43 and whose coerced longitude lies
  strictly between -72 and -70, in their order; a row on or outside a bound, or whose
  latitude or longitude did not coerce to a finite number, is dropped. A kept row holds the
  coerced coordinates (and the coerced date and its month when \<open>date_column\<close> is set) and
  is otherwise unchanged. The table must have the columns the function reads.
\<close>

theorem process_dataframe_keeps_strict_box:
  fixes num :: "cell \<Rightarrow> pyfloat" and dt :: "cell \<Rightarrow> ts option" and df :: table
  assumes lat: "''latitude'' \<in> set (cols df)"
    and lon: "''longitude'' \<in> set (cols df)"
    and dat: "date_column \<longrightarrow> ''date'' \<in> set (cols df)"
    and wf: "wf_table df"
  shows "\<exists>df' g. process_dataframe num dt df True date_column = Inr df'
           \<and> rws df' = map g (filter (\<lambda>r. \<exists>a b. num (cell_at (cols df) r ''latitude'') = Fin a
                                   \<and> num (cell_at (cols df) r ''longitude'') = Fin b
                                   \<and> 40 < a \<and> a < 43 \<and> - 72 < b \<and> b < - 70) (rws df))
           \<and> (\<forall>r \<in> set (rws df). \<forall>c. cell_at (cols df') (g r) c =
                 (if date_column \<and> c = ''month''
                    then month_cell (date_cell dt (cell_at (cols df) r ''date''))
                  else if date_column \<and> c = ''date'' then date_cell dt (cell_at (cols df) r ''date'')
                  else if c = ''longitude'' then CNum (num (cell_at (cols df) r ''longitude''))
                  else if c = ''latitude'' then CNum (num (cell_at (cols df) r ''latitude''))
                  else cell_at (cols df) r c))"
proof -
  let ?cs = "cols df"
  let ?P = "\<lambda>r. \<exists>a b. num (cell_at ?cs r ''latitude'') = Fin a
                   \<and> num (cell_at ?cs r ''longitude'') = Fin b
                   \<and> 40 < a \<and> a < 43 \<and> - 72 < b \<and> b < - 70"
  let ?g = "\<lambda>r. row_assign ?cs ''longitude'' (\<lambda>r. CNum (num (cell_at ?cs r ''longitude'')))
                 (row_assign ?cs ''latitude'' (\<lambda>r. CNum (num (cell_at ?cs r ''latitude''))) r)"
  let ?df3 = "\<lparr>cols = ?cs, rws = map ?g (filter ?P (rws df))\<rparr>"
  have loc: "process_location num df = Inr ?df3"
    by (rule process_location_rows [OF lat lon wf])
  have len: "length r = length ?cs" if "r \<in> set (rws df)" for r
    using wf that by (simp add: wf_table_def list_all_iff)
  have leng: "length (?g r) = length ?cs" if "r \<in> set (rws df)" for r
    using len [OF that] lat lon by (simp add: length_row_assign)
  have cg: "cell_at ?cs (?g r) c =
              (if c = ''longitude'' then CNum (num (cell_at ?cs r ''longitude''))
               else if c = ''latitude'' then CNum (num (cell_at ?cs r ''latitude''))
               else cell_at ?cs r c)" if "r \<in> set (rws df)" for r c
    by (rule loc_row_cells [OF len [OF that] lat lon])
  show ?thesis
  proof (cases date_column)
    case False
    have "process_dataframe num dt df True date_column = Inr ?df3"
      using loc False by (simp add: process_dataframe_def)
    moreover have "rws ?df3 = map ?g (filter ?P (rws df))" by simp
    moreover have "\<forall>r \<in> set (rws df). \<forall>c. cell_at (cols ?df3) (?g r) c =
                 (if date_column \<and> c = ''month''
                    then month_cell (date_cell dt (cell_at ?cs r ''date''))
                  else if date_column \<and> c = ''date'' then date_cell dt (cell_at ?cs r ''date'')
                  else if c = ''longitude'' then CNum (num (cell_at ?cs r ''longitude''))
                  else if c = ''latitude'' then CNum (num (cell_at ?cs r ''latitude''))
                  else cell_at ?cs r c)"
      using cg False by simp
    ultimately show ?thesis by blast
  next
    case True
    let ?h = "\<lambda>r. row_assign ?cs ''month'' (\<lambda>r. month_cell (cell_at ?cs r ''date''))
                      (row_assign ?cs ''date'' (\<lambda>r. date_cell dt (cell_at ?cs r ''date'')) r)"
    have d3: "''date'' \<in> set (cols ?df3)" using dat True by simp
    have wf3: "wf_table ?df3"
      using leng by (simp add: wf_table_def list_all_iff)
    from process_date_rows [OF d3 wf3, of dt]
    obtain df' where res: "process_date dt ?df3 = Inr df'"
      and rows: "rws df' = map ?h (rws ?df3)"
      and cells: "\<And>r c. length r = length ?cs \<Longrightarrow> cell_at (cols df') (?h r) c =
                 (if c = ''month'' then month_cell (date_cell dt (cell_at ?cs r ''date''))
                  else if c = ''date'' then date_cell dt (cell_at ?cs r ''date'')
                  else cell_at ?cs r c)"
      by auto
    have "process_dataframe num dt df True date_column = Inr df'"
      using loc res True by (simp add: process_dataframe_def)
    moreover have "rws df' = map (\<lambda>r. ?h (?g r)) (filter ?P (rws df))"
      using rows by simp
    moreover have "\<forall>r \<in> set (rws df). \<forall>c. cell_at (cols df') (?h (?g r)) c =
                 (if date_column \<and> c = ''month''
                    then month_cell (date_cell dt (cell_at ?cs r ''date''))
                  else if date_column \<and> c = ''date'' then date_cell dt (cell_at ?cs r ''date'')
                  else if c = ''longitude'' then CNum (num (cell_at ?cs r ''longitude''))
                  else if c = ''latitude'' then CNum (num (cell_at ?cs r ''latitude''))
                  else cell_at ?cs r c)"
    proof (intro ballI allI)
      fix r c assume r: "r \<in> set (rws df)"
      show "cell_at (cols df') (?h (?g r)) c =
                 (if date_column \<and> c = ''month''
                    then month_cell (date_cell dt (cell_at ?cs r ''date''))
                  else if date_column \<and> c = ''date'' then date_cell dt (cell_at ?cs r ''date'')
                  else if c = ''longitude'' then CNum (num (cell_at ?cs r ''longitude''))
                  else if c = ''latitude'' then CNum (num (cell_at ?cs r ''latitude''))
                  else cell_at ?cs r c)"
        unfolding cells [OF leng [OF r]] cg [OF r] using True by simp
    qed
    ultimately show ?thesis by blast
  qed
qed

theorem process_dataframe_keeps_strict_box_witness:
  "''latitude'' \<in> set (cols \<lparr>cols = [''id'', ''latitude'', ''longitude'', ''date''],
        rws = [[CStr ''a'', CStr ''42'', CNum (Fin (- 71)), CTime (TS 2024 12 5 0)],
               [CStr ''b'', CNum (Fin 40), CNum (Fin (- 71)), CNull],
               [CStr ''c'', CStr ''x'', CNum (Fin (- 71)), CNull]]\<rparr>)
   \<and> wf_table \<lparr>cols = [''id'', ''latitude'', ''longitude'', ''date''],
        rws = [[CStr ''a'', CStr ''42'', CNum (Fin (- 71)), CTime (TS 2024 12 5 0)],
               [CStr ''b'', CNum (Fin 40), CNum (Fin (- 71)), CNull],
               [CStr ''c'', CStr ''x'', CNum (Fin (- 71)), CNull]]\<rparr>
   \<and> (\<exists>df'. process_dataframe
         (\<lambda>c. case c of CNum f \<Rightarrow> f | CStr s \<Rightarrow> (if s = ''42'' then Fin 42 else NaN) | _ \<Rightarrow> NaN)
         (\<lambda>c. case c of CTime t \<Rightarrow> Some t | _ \<Rightarrow> None)
         \<lparr>cols = [''id'', ''latitude'', ''longitude'', ''date''],
          rws = [[CStr ''a'', CStr ''42'', CNum (Fin (- 71)), CTime (TS 2024 12 5 0)],
                 [CStr ''b'', CNum (Fin 40), CNum (Fin (- 71)), CNull],
                 [CStr ''c'', CStr ''x'', CNum (Fin (- 71)), CNull]]\<rparr> True True = Inr df'
        \<and> length (rws df') = 1)"
proof -
  let ?D = "\<lparr>cols = [''id'', ''latitude'', ''longitude'', ''date''],
        rws = [[CStr ''a'', CStr ''42'', CNum (Fin (- 71)), CTime (TS 2024 12 5 0)],
               [CStr ''b'', CNum (Fin 40), CNum (Fin (- 71)), CNull],
               [CStr ''c'', CStr ''x'', CNum (Fin (- 71)), CNull]]\<rparr>"
  let ?N = "\<lambda>c. case c of CNum f \<Rightarrow> f | CStr s \<Rightarrow> (if s = ''42'' then Fin 42 else NaN) | _ \<Rightarrow> NaN"
  let ?T = "\<lambda>c. case c of CTime t \<Rightarrow> Some t | _ \<Rightarrow> None"
  have lat: "''latitude'' \<in> set (cols ?D)" by simp
  have lon: "''longitude'' \<in> set (cols ?D)" by simp
  have dat: "True \<longrightarrow> ''date'' \<in> set (cols ?D)" by simp
  have wf: "wf_table ?D" by (simp add: wf_table_def)
  from process_dataframe_keeps_strict_box [OF lat lon dat wf, of ?N ?T]
  obtain df' g where res: "process_dataframe ?N ?T ?D True True = Inr df'"
    and rows: "rws df' = map g (filter (\<lambda>r. \<exists>a b. ?N (cell_at (cols ?D) r ''latitude'') = Fin a
                                   \<and> ?N (cell_at (cols ?D) r ''longitude'') = Fin b
                                   \<and> 40 < a \<and> a < 43 \<and> - 72 < b \<and> b < - 70) (rws ?D))"
    by blast
  from rows have "length (rws df') = 1"
    by (simp add: cell_at_def rget_def)
  with res lat wf show ?thesis by blast
qed

section \<open>Properties of the month view\<close>

text \<open>
  Claim C1. For a month with at least one record, every record of the month having an id
  and finite coordinates, the month view returns features whose counts (the \<open>value\<close> of
  a feature, the length of its id list) sum to the number of records of the month; the id
  lists together hold exactly the record ids of the month; every feature holds exactly the
  ids of the records that fall in its cell, cells are not repeated and every record falls in
  the cell of one feature; and when the record ids are distinct the id lists are free of
  duplicates and pairwise disjoint.
\<close>

theorem update_map_data_partitions_month:
  fixes df_311 df_shots df_hom :: table
    and strptime :: "string \<Rightarrow> (int \<times> nat) option" and date_value :: string
    and pystr :: "cell \<Rightarrow> string"
  defines "sel \<equiv> month_timestamp (date_string_to_year_month strptime date_value)"
  defines "rows_m \<equiv> filter (\<lambda>r. cell_at (cols df_311) r ''month'' = CTime sel) (rws df_311)"
  defines "rid \<equiv> \<lambda>r. pystr (cell_at (cols df_311) r ''id'')"
  assumes mon: "''month'' \<in> set (cols df_311)"
    and ne: "rows_m \<noteq> []"
    and placed: "list_all (placed_row (cols df_311)) rows_m"
    and shots: "wf_table df_shots" "{''date'', ''longitude'', ''latitude''} \<subseteq> set (cols df_shots)"
    and hom: "wf_table df_hom" "{''date'', ''longitude'', ''latitude''} \<subseteq> set (cols df_hom)"
  shows "\<exists>fs sd hd.
           update_map_data strptime ltc ctb ctl pystr df_311 df_shots df_hom date_value = Inr (fs, sd, hd)
           \<and> sum_list (map mf_value fs) = length rows_m
           \<and> mset (concat (map mf_ids fs)) = mset (map rid rows_m)
           \<and> distinct (map mf_hex_id fs)
           \<and> (\<forall>f \<in> set fs. mf_value f = length (mf_ids f) \<and> mf_ids f \<noteq> []
                 \<and> mf_ids f = map rid (filter (\<lambda>r. row_hex ltc (cols df_311) r = Inr (mf_hex_id f)) rows_m))
           \<and> (\<forall>r \<in> set rows_m. \<exists>f \<in> set fs. row_hex ltc (cols df_311) r = Inr (mf_hex_id f))
           \<and> (distinct (map rid rows_m) \<longrightarrow>
                (\<forall>f \<in> set fs. distinct (mf_ids f))
                \<and> (\<forall>i j. i < j \<and> j < length fs \<longrightarrow> set (mf_ids (fs ! i)) \<inter> set (mf_ids (fs ! j)) = {}))"
proof -
  let ?cs = "cols df_311"
  from rows_of_month_succeeds [OF shots(1), of sel] shots(2)
  obtain sm where sm: "rows_of_month sel df_shots = Inr sm"
    and sml: "list_all (\<lambda>r. length r = length (cols df_shots)) sm" by auto
  from rows_of_month_succeeds [OF hom(1), of sel] hom(2)
  obtain hm where hm: "rows_of_month sel df_hom = Inr hm"
    and hml: "list_all (\<lambda>r. length r = length (cols df_hom)) hm" by auto
  from point_features_succeeds [OF sml, of pystr] shots(2)
  obtain sf where sf: "point_features pystr (cols df_shots) sm = Inr sf" by auto
  from point_features_succeeds [OF hml, of pystr] hom(2)
  obtain hf where hf: "point_features pystr (cols df_hom) hm = Inr hf" by auto
  from hex_group_succeeds [OF placed, of ltc pystr "[]"]
  obtain m where m: "hex_group ltc pystr ?cs rows_m [] = Inr m" by blast
  let ?fs = "month_features ctb ctl m"
  have nonempty: "\<not> df_empty (df_311\<lparr>rws := rows_m\<rparr>)"
    using mon ne by (auto simp: df_empty_def)
  have res: "update_map_data strptime ltc ctb ctl pystr df_311 df_shots df_hom date_value
               = Inr (?fs, Some (feature_collection sf), Some (feature_collection hf))"
    using mon sm hm sf hf m nonempty
    by (simp add: update_map_data_def Let_def sel_def [symmetric] rows_m_def [symmetric])
  have total: "sum_list (map mf_value ?fs) = length rows_m"
    using hex_group_total [OF m] by (simp add: month_features_values)
  have ids: "mset (concat (map mf_ids ?fs)) = mset (map rid rows_m)"
    using hex_group_mset [OF m] by (simp add: month_features_values rid_def)
  have keys: "distinct (map mf_hex_id ?fs)"
    using hex_group_distinct [OF m] by (simp add: month_features_values)
  have each: "\<forall>f \<in> set ?fs. mf_value f = length (mf_ids f) \<and> mf_ids f \<noteq> []
                 \<and> mf_ids f = map rid (filter (\<lambda>r. row_hex ltc ?cs r = Inr (mf_hex_id f)) rows_m)"
  proof
    fix f assume "f \<in> set ?fs"
    from month_features_member [OF this]
    have kv: "(mf_hex_id f, mf_ids f) \<in> set m" and v: "mf_value f = length (mf_ids f)" by auto
    from hex_group_cells [OF m kv] v
    show "mf_value f = length (mf_ids f) \<and> mf_ids f \<noteq> []
                 \<and> mf_ids f = map rid (filter (\<lambda>r. row_hex ltc ?cs r = Inr (mf_hex_id f)) rows_m)"
      by (simp add: rid_def)
  qed
  have cover: "\<forall>r \<in> set rows_m. \<exists>f \<in> set ?fs. row_hex ltc ?cs r = Inr (mf_hex_id f)"
  proof
    fix r assume r: "r \<in> set rows_m"
    with placed have "placed_row ?cs r" by (simp add: list_all_iff)
    from placed_row_hex [OF this, of ltc] obtain h where h: "row_hex ltc ?cs r = Inr h" by blast
    with r hex_group_keys [OF m] have "h \<in> set (map fst m)" by auto
    then have "h \<in> set (map mf_hex_id ?fs)" by (simp add: month_features_values)
    then obtain f where "f \<in> set ?fs" "mf_hex_id f = h" by auto
    with h show "\<exists>f \<in> set ?fs. row_hex ltc ?cs r = Inr (mf_hex_id f)" by auto
  qed
  have disj: "(\<forall>f \<in> set ?fs. distinct (mf_ids f))
                \<and> (\<forall>i j. i < j \<and> j < length ?fs \<longrightarrow> set (mf_ids (?fs ! i)) \<inter> set (mf_ids (?fs ! j)) = {})"
    if d: "distinct (map rid rows_m)"
  proof -
    from ids d have dc: "distinct (concat (map mf_ids ?fs))"
      by (metis distinct_count_atmost_1 set_mset_mset mset_eq_setD)
    have a: "\<forall>f \<in> set ?fs. distinct (mf_ids f)"
      using dc by (auto simp: distinct_concat_iff)
    have b: "\<forall>i j. i < j \<and> j < length ?fs \<longrightarrow> set (mf_ids (?fs ! i)) \<inter> set (mf_ids (?fs ! j)) = {}"
    proof (intro allI impI)
      fix i j assume ij: "i < j \<and> j < length ?fs"
      from distinct_concat_disjoint [OF dc, of i j] ij
      show "set (mf_ids (?fs ! i)) \<inter> set (mf_ids (?fs ! j)) = {}" by simp
    qed
    from a b show ?thesis by blast
  qed
  from res total ids keys each cover disj show ?thesis by blast
qed

theorem update_map_data_partitions_month_witness:
  "\<exists>fs sd hd.
     update_map_data (\<lambda>s. if s = ''December 2024'' then Some (2024, 12) else None)
       (\<lambda>lat lon res. if lat < 42 then ''h1'' else ''h2'')
       (\<lambda>h. ((0, 0), [(0, 1), (1, 1)])) (\<lambda>h. (0, 0))
       (\<lambda>c. case c of CStr s \<Rightarrow> s | _ \<Rightarrow> ''?'')
       \<lparr>cols = [''id'', ''latitude'', ''longitude'', ''month''],
        rws = [[CStr ''a'', CNum (Fin 41), CNum (Fin (- 71)), CTime (TS 2024 12 1 0)],
               [CStr ''b'', CNum (Fin 42.5), CNum (Fin (- 71)), CTime (TS 2024 12 1 0)],
               [CStr ''c'', CNum (Fin 41.5), CNum (Fin (- 71)), CTime (TS 2024 12 1 0)],
               [CStr ''d'', CNum (Fin 41), CNum (Fin (- 71)), CTime (TS 2024 11 1 0)]]\<rparr>
       \<lparr>cols = [''id'', ''date'', ''longitude'', ''latitude''], rws = []\<rparr>
       \<lparr>cols = [''id'', ''date'', ''longitude'', ''latitude''], rws = []\<rparr>
       ''December 2024'' = Inr (fs, sd, hd)
     \<and> sum_list (map mf_value fs) = 3
     \<and> mset (concat (map mf_ids fs)) = {#''a'', ''b'', ''c''#}"
proof -
  let ?sp = "\<lambda>s. if s = ''December 2024'' then Some (2024 :: int, 12 :: nat) else None"
  let ?ltc = "\<lambda>(lat::real) (lon::real) (res::nat). if lat < 42 then ''h1'' else ''h2''"
  let ?ctb = "\<lambda>h::string. ((0::real, 0::real), [(0::real, 1::real), (1, 1)])"
  let ?ctl = "\<lambda>h::string. (0::real, 0::real)"
  let ?str = "\<lambda>c. case c of CStr s \<Rightarrow> s | _ \<Rightarrow> ''?''"
  let ?D = "\<lparr>cols = [''id'', ''latitude'', ''longitude'', ''month''],
        rws = [[CStr ''a'', CNum (Fin 41), CNum (Fin (- 71)), CTime (TS 2024 12 1 0)],
               [CStr ''b'', CNum (Fin 42.5), CNum (Fin (- 71)), CTime (TS 2024 12 1 0)],
               [CStr ''c'', CNum (Fin 41.5), CNum (Fin (- 71)), CTime (TS 2024 12 1 0)],
               [CStr ''d'', CNum (Fin 41), CNum (Fin (- 71)), CTime (TS 2024 11 1 0)]]\<rparr>"
  let ?S = "\<lparr>cols = [''id'', ''date'', ''longitude'', ''latitude''], rws = []\<rparr>"
  let ?sel = "month_timestamp (date_string_to_year_month ?sp ''December 2024'')"
  let ?rows = "filter (\<lambda>r. cell_at (cols ?D) r ''month'' = CTime ?sel) (rws ?D)"
  have rows: "?rows = [[CStr ''a'', CNum (Fin 41), CNum (Fin (- 71)), CTime (TS 2024 12 1 0)],
               [CStr ''b'', CNum (Fin 42.5), CNum (Fin (- 71)), CTime (TS 2024 12 1 0)],
               [CStr ''c'', CNum (Fin 41.5), CNum (Fin (- 71)), CTime (TS 2024 12 1 0)]]"
    by (simp add: cell_at_def rget_def month_timestamp_def date_string_to_year_month_def)
  have mon: "''month'' \<in> set (cols ?D)" by simp
  have ne: "?rows \<noteq> []" unfolding rows by simp
  have placed: "list_all (placed_row (cols ?D)) ?rows"
    unfolding rows by (simp add: placed_row_def row_latlng_def rget_def)
  have wf: "wf_table ?S" by (simp add: wf_table_def)
  have cs: "{''date'', ''longitude'', ''latitude''} \<subseteq> set (cols ?S)" by simp
  from update_map_data_partitions_month [OF mon ne placed wf cs wf cs, of ?ltc ?ctb ?ctl]
  obtain fs sd hd where
    res: "update_map_data ?sp ?ltc ?ctb ?ctl ?str ?D ?S ?S ''December 2024'' = Inr (fs, sd, hd)"
    and total: "sum_list (map mf_value fs) = length ?rows"
    and ids: "mset (concat (map mf_ids fs)) = mset (map (\<lambda>r. ?str (cell_at (cols ?D) r ''id'')) ?rows)"
    by blast
  from total have t: "sum_list (map mf_value fs) = 3" unfolding rows by simp
  from ids have i: "mset (concat (map mf_ids fs)) = {#''a'', ''b'', ''c''#}"
    unfolding rows by (simp add: cell_at_def rget_def)
  from res t i show ?thesis by blast
qed

section \<open>Properties of the all-time view\<close>

lemma max_count_Max:
  assumes "m \<noteq> []"
  shows "max_count m = Max (set (map (\<lambda>kv. length (snd kv)) m))"
proof -
  from assms obtain kv m' where m: "m = kv # m'" by (cases m) auto
  have "Max (set (length (snd kv) # map (\<lambda>kv. length (snd kv)) m'))
          = fold max (map (\<lambda>kv. length (snd kv)) m') (length (snd kv))"
    by (rule Max.set_eq_fold)
  with m show ?thesis by (simp add: max_count_def)
qed

lemma alltime_features_map:
  "0 < M \<Longrightarrow>
     alltime_features ctb ctl M m =
       Inr (map (\<lambda>kv. \<lparr>af_hex_id = fst kv, af_value = 1 + (real (length (snd kv)) / real M) * 9,
                       af_count = length (snd kv),
                       af_lat = fst (ctl (fst kv)), af_lon = snd (ctl (fst kv)),
                       af_coords = ring (ctb (fst kv))\<rparr>) m)"
  by (induction m) (simp_all add: normalized_value_def)

lemma normalized_bounds:
  fixes c M :: nat
  assumes "1 \<le> c" and "c \<le> M"
  shows "1 < 1 + (real c / real M) * 9" and "1 + (real c / real M) * 9 \<le> 10"
    and "c = M \<longrightarrow> 1 + (real c / real M) * 9 = 10"
    and "c = 1 \<longrightarrow> 1 + (real c / real M) * 9 = 1 + 9 / real M"
proof -
  define x where "x = real c / real M"
  from assms have M: "0 < real M" and c: "0 < real c" and le: "real c \<le> real M" by simp_all
  from c M have x0: "0 < x" by (simp add: x_def)
  from le M have x1: "x \<le> 1" by (simp add: x_def divide_le_eq)
  from x0 have "1 < 1 + x * 9" by simp
  then show "1 < 1 + (real c / real M) * 9" by (simp only: x_def)
  from x1 have "1 + x * 9 \<le> 10" by simp
  then show "1 + (real c / real M) * 9 \<le> 10" by (simp only: x_def)
  show "c = M \<longrightarrow> 1 + (real c / real M) * 9 = 10" using M by simp
  show "c = 1 \<longrightarrow> 1 + (real c / real M) * 9 = 1 + 9 / real M" by simp
qed

text \<open>
  Claim C3, as the code has it. In the all-time view every feature has a count of at least
  1 (the number of records of its cell) and the value \<open>1 + (count / maxCount) * 9\<close>, where
  \<open>maxCount\<close> is the largest count of a cell; so the value lies above 1 and at most at 10,
  a feature with the largest count has value 10 and a feature of count 1 has value
  \<open>1 + 9 / maxCount\<close>. The function returns a result on every table of placed records:
  the divisor is at least 1, and a table without rows gives the empty feature list. The
  arithmetic is that of the real numbers.
\<close>

theorem get_all_hexbin_data_normalized:
  assumes placed: "list_all (placed_row (cols df_311)) (rws df_311)"
  shows "\<exists>fs. get_all_hexbin_data ltc ctb ctl pystr df_311 = Inr fs
           \<and> (rws df_311 = [] \<longrightarrow> fs = [])
           \<and> (rws df_311 \<noteq> [] \<and> cols df_311 \<noteq> [] \<longrightarrow> fs \<noteq> [])
           \<and> (\<forall>f \<in> set fs.
                 af_count f = length (filter (\<lambda>r. row_hex ltc (cols df_311) r = Inr (af_hex_id f)) (rws df_311))
                 \<and> 1 \<le> af_count f
                 \<and> af_count f \<le> Max (set (map af_count fs))
                 \<and> af_value f = 1 + (real (af_count f) / real (Max (set (map af_count fs)))) * 9
                 \<and> 1 < af_value f \<and> af_value f \<le> 10
                 \<and> (af_count f = Max (set (map af_count fs)) \<longrightarrow> af_value f = 10)
                 \<and> (af_count f = 1 \<longrightarrow> af_value f = 1 + 9 / real (Max (set (map af_count fs)))))"
proof (cases "df_empty df_311")
  case True
  then have "get_all_hexbin_data ltc ctb ctl pystr df_311 = Inr []"
    by (simp add: get_all_hexbin_data_def)
  with True show ?thesis by (auto simp: df_empty_def)
next
  case False
  then have ne: "rws df_311 \<noteq> []" by (simp add: df_empty_def)
  let ?cs = "cols df_311"
  from hex_group_succeeds [OF placed, of ltc pystr "[]"]
  obtain m where m: "hex_group ltc pystr ?cs (rws df_311) [] = Inr m" by blast
  let ?M = "max_count m"
  let ?F = "\<lambda>kv. \<lparr>af_hex_id = fst kv, af_value = 1 + (real (length (snd kv)) / real ?M) * 9,
                       af_count = length (snd kv),
                       af_lat = fst (ctl (fst kv)), af_lon = snd (ctl (fst kv)),
                       af_coords = ring (ctb (fst kv))\<rparr>"
  let ?fs = "map ?F m"
  from hex_group_total [OF m] ne have mne: "m \<noteq> []" by auto
  have Mmax: "?M = Max (set (map (\<lambda>kv. length (snd kv)) m))"
    by (rule max_count_Max [OF mne])
  have cnts: "map af_count ?fs = map (\<lambda>kv. length (snd kv)) m"
    by (simp add: comp_def)
  have MaxM: "Max (set (map af_count ?fs)) = ?M"
    unfolding cnts by (rule Mmax [symmetric])
  have len1: "1 \<le> length ids" if "(k, ids) \<in> set m" for k ids
    using hex_group_cells(2) [OF m that] by (cases ids) auto
  have leM: "length (snd kv) \<le> ?M" if "kv \<in> set m" for kv
    unfolding Mmax using that by (intro Max_ge) auto
  obtain kv0 where "kv0 \<in> set m" using mne by (cases m) auto
  with len1 [of "fst kv0" "snd kv0"] leM [of kv0] have Mpos: "0 < ?M" by simp
  have res: "get_all_hexbin_data ltc ctb ctl pystr df_311 = Inr ?fs"
    using False m alltime_features_map [OF Mpos, of ctb ctl m]
    by (simp add: get_all_hexbin_data_def)
  have each: "\<forall>f \<in> set ?fs.
                 af_count f = length (filter (\<lambda>r. row_hex ltc ?cs r = Inr (af_hex_id f)) (rws df_311))
                 \<and> 1 \<le> af_count f
                 \<and> af_count f \<le> Max (set (map af_count ?fs))
                 \<and> af_value f = 1 + (real (af_count f) / real (Max (set (map af_count ?fs)))) * 9
                 \<and> 1 < af_value f \<and> af_value f \<le> 10
                 \<and> (af_count f = Max (set (map af_count ?fs)) \<longrightarrow> af_value f = 10)
                 \<and> (af_count f = 1 \<longrightarrow> af_value f = 1 + 9 / real (Max (set (map af_count ?fs))))"
  proof
    fix f assume "f \<in> set ?fs"
    then obtain kv where kv: "kv \<in> set m" and f: "f = ?F kv" by auto
    obtain k ids where kvp: "kv = (k, ids)" by (cases kv)
    from kv kvp have mem: "(k, ids) \<in> set m" by simp
    have c1: "1 \<le> length ids" by (rule len1 [OF mem])
    have c2: "length ids \<le> ?M" using leM [OF kv] kvp by simp
    have cnt: "length ids = length (filter (\<lambda>r. row_hex ltc ?cs r = Inr k) (rws df_311))"
      using hex_group_cells(1) [OF m mem] by (metis length_map)
    note nb = normalized_bounds [OF c1 c2]
    show "af_count f = length (filter (\<lambda>r. row_hex ltc ?cs r = Inr (af_hex_id f)) (rws df_311))
                 \<and> 1 \<le> af_count f
                 \<and> af_count f \<le> Max (set (map af_count ?fs))
                 \<and> af_value f = 1 + (real (af_count f) / real (Max (set (map af_count ?fs)))) * 9
                 \<and> 1 < af_value f \<and> af_value f \<le> 10
                 \<and> (af_count f = Max (set (map af_count ?fs)) \<longrightarrow> af_value f = 10)
                 \<and> (af_count f = 1 \<longrightarrow> af_value f = 1 + 9 / real (Max (set (map af_count ?fs))))"
      unfolding MaxM using c1 c2 cnt nb by (simp add: f kvp)
  qed
  have a2: "rws df_311 = [] \<longrightarrow> ?fs = []" using ne by simp
  have a3: "rws df_311 \<noteq> [] \<and> cols df_311 \<noteq> [] \<longrightarrow> ?fs \<noteq> []" using mne by simp
  show ?thesis by (intro exI [of _ ?fs] conjI res a2 a3 each)
qed

theorem get_all_hexbin_data_normalized_witness:
  "list_all (placed_row [''id'', ''latitude'', ''longitude''])
     [[CStr ''a'', CNum (Fin 41), CNum (Fin (- 71))],
      [CStr ''b'', CNum (Fin 41.5), CNum (Fin (- 71))],
      [CStr ''c'', CNum (Fin 42.5), CNum (Fin (- 71))]]
   \<and> (\<exists>fs. get_all_hexbin_data (\<lambda>lat lon res. if lat < 42 then ''h1'' else ''h2'')
          (\<lambda>h. ((0, 0), [(0, 1), (1, 1)])) (\<lambda>h. (0, 0))
          (\<lambda>c. case c of CStr s \<Rightarrow> s | _ \<Rightarrow> ''?'')
          \<lparr>cols = [''id'', ''latitude'', ''longitude''],
           rws = [[CStr ''a'', CNum (Fin 41), CNum (Fin (- 71))],
                  [CStr ''b'', CNum (Fin 41.5), CNum (Fin (- 71))],
                  [CStr ''c'', CNum (Fin 42.5), CNum (Fin (- 71))]]\<rparr> = Inr fs
        \<and> fs \<noteq> [])"
proof -
  let ?D = "\<lparr>cols = [''id'', ''latitude'', ''longitude''],
           rws = [[CStr ''a'', CNum (Fin 41), CNum (Fin (- 71))],
                  [CStr ''b'', CNum (Fin 41.5), CNum (Fin (- 71))],
                  [CStr ''c'', CNum (Fin 42.5), CNum (Fin (- 71))]]\<rparr>"
  have placed: "list_all (placed_row (cols ?D)) (rws ?D)"
    by (simp add: placed_row_def row_latlng_def rget_def)
  from get_all_hexbin_data_normalized [OF placed,
         of "\<lambda>lat lon res. if lat < 42 then ''h1'' else ''h2''"
            "\<lambda>h. ((0, 0), [(0, 1), (1, 1)])" "\<lambda>h. (0, 0)"
            "\<lambda>c. case c of CStr s \<Rightarrow> s | _ \<Rightarrow> ''?''"]
  obtain fs where "get_all_hexbin_data (\<lambda>lat lon res. if lat < 42 then ''h1'' else ''h2'')
          (\<lambda>h. ((0, 0), [(0, 1), (1, 1)])) (\<lambda>h. (0, 0))
          (\<lambda>c. case c of CStr s \<Rightarrow> s | _ \<Rightarrow> ''?'') ?D = Inr fs"
    and "rws ?D \<noteq> [] \<and> cols ?D \<noteq> [] \<longrightarrow> fs \<noteq> []"
    by blast
  with placed show ?thesis by auto
qed

theorem get_all_hexbin_data_least_cell_counterexample:
  "get_all_hexbin_data (\<lambda>lat lon res. if lat < 42 then ''h1'' else ''h2'')
          (\<lambda>h. ((0, 0), [(0, 1), (1, 1)])) (\<lambda>h. (0, 0))
          (\<lambda>c. case c of CStr s \<Rightarrow> s | _ \<Rightarrow> ''?'')
          \<lparr>cols = [''id'', ''latitude'', ''longitude''],
           rws = [[CStr ''a'', CNum (Fin 41), CNum (Fin (- 71))],
                  [CStr ''b'', CNum (Fin 41.5), CNum (Fin (- 71))],
                  [CStr ''c'', CNum (Fin 42.5), CNum (Fin (- 71))]]\<rparr>
     = Inr [\<lparr>af_hex_id = ''h1'', af_value = 10, af_count = 2, af_lat = 0, af_lon = 0,
             af_coords = [(0, 0), (1, 0), (1, 1), (0, 0)]\<rparr>,
            \<lparr>af_hex_id = ''h2'', af_value = 11 / 2, af_count = 1, af_lat = 0, af_lon = 0,
             af_coords = [(0, 0), (1, 0), (1, 1), (0, 0)]\<rparr>]
   \<and> (11 / 2 :: real) \<noteq> 1"
  by (simp add: get_all_hexbin_data_def df_empty_def row_hex_def row_latlng_def rget_def
        max_count_def normalized_value_def ring_def)

section \<open>Properties of the month-scoped shot count\<close>

lemma located_row_hex: "located_row cs r \<Longrightarrow> \<exists>h. row_hex ltc cs r = Inr h"
  by (cases "row_latlng cs r") (simp_all add: located_row_def row_hex_def)

lemma row_cells_count:
  "list_all (located_row cs) rs \<Longrightarrow>
     \<exists>cells. row_cells ltc cs rs = Inr cells
        \<and> length (filter (\<lambda>c. c \<in> S) cells)
            = length (filter (\<lambda>r. \<exists>h \<in> S. row_hex ltc cs r = Inr h) rs)"
proof (induction rs)
  case Nil
  then show ?case by simp
next
  case (Cons r rs)
  from Cons.prems obtain h where h: "row_hex ltc cs r = Inr h"
    using located_row_hex [of cs r ltc] by auto
  from Cons obtain cells where c: "row_cells ltc cs rs = Inr cells"
    and n: "length (filter (\<lambda>c. c \<in> S) cells)
            = length (filter (\<lambda>r. \<exists>h \<in> S. row_hex ltc cs r = Inr h) rs)"
    by auto
  from h c n show ?case by simp
qed

lemma apply_cells_rows: "rs \<noteq> [] \<Longrightarrow> apply_cells ltc cs rs = row_cells ltc cs rs"
  by (simp add: apply_cells_def)

text \<open>
  Claim C8. The shot-count query returns the number of shot rows of the month when the
  selection has no hex cells (the key is absent or its list is empty). With a non-empty
  list of hex cells and a month that has shot rows it recomputes the cell of every row of
  the month at resolution 10 and returns the number of rows whose cell is in the list. With
  a non-empty list and a month without shot rows it does not return 0: the row-wise
  \<^verbatim>\<open>apply\<close> on the empty frame gives a frame, and the assignment of the cell column
  raises \<^verbatim>\<open>ValueError\<close>.
\<close>

theorem update_shot_count_by_selection:
  fixes df_shots :: table and strptime :: "string \<Rightarrow> (int \<times> nat) option" and date_str :: string
  defines "rows_m \<equiv> filter (\<lambda>r. month_cell (cell_at (cols df_shots) r ''date'')
                          = CTime (month_timestamp (date_string_to_year_month strptime date_str)))
                        (rws df_shots)"
  assumes dat: "''date'' \<in> set (cols df_shots)"
  shows "(map_of selected ''selected_hexbins'' = None \<or> map_of selected ''selected_hexbins'' = Some []
            \<longrightarrow> update_shot_count strptime ltc df_shots selected date_str = Inr (length rows_m))
       \<and> (map_of selected ''selected_hexbins'' = Some hex_ids \<and> hex_ids \<noteq> [] \<and> rows_m \<noteq> []
            \<and> list_all (located_row (cols df_shots)) rows_m
            \<longrightarrow> update_shot_count strptime ltc df_shots selected date_str
                  = Inr (length (filter (\<lambda>r. \<exists>h \<in> set hex_ids. row_hex ltc (cols df_shots) r = Inr h) rows_m)))
       \<and> (map_of selected ''selected_hexbins'' = Some hex_ids \<and> hex_ids \<noteq> [] \<and> rows_m = []
            \<and> length (cols df_shots) \<noteq> 1
            \<longrightarrow> (\<exists>msg. update_shot_count strptime ltc df_shots selected date_str = Inl (ValueError msg)))"
proof -
  let ?sel = "month_timestamp (date_string_to_year_month strptime date_str)"
  have rm: "rows_of_month ?sel df_shots = Inr rows_m"
    using dat by (simp add: rows_of_month_def rows_m_def)
  have a: "update_shot_count strptime ltc df_shots selected date_str = Inr (length rows_m)"
    if "map_of selected ''selected_hexbins'' = None \<or> map_of selected ''selected_hexbins'' = Some []"
    using that rm by (auto simp: update_shot_count_def Let_def)
  have b: "update_shot_count strptime ltc df_shots selected date_str
             = Inr (length (filter (\<lambda>r. \<exists>h \<in> set hex_ids. row_hex ltc (cols df_shots) r = Inr h) rows_m))"
    if s: "map_of selected ''selected_hexbins'' = Some hex_ids" and ne: "hex_ids \<noteq> []"
      and rne: "rows_m \<noteq> []" and loc: "list_all (located_row (cols df_shots)) rows_m"
  proof -
    from row_cells_count [OF loc, of ltc "set hex_ids"]
    obtain cells where c: "row_cells ltc (cols df_shots) rows_m = Inr cells"
      and n: "length (filter (\<lambda>c. c \<in> set hex_ids) cells)
            = length (filter (\<lambda>r. \<exists>h \<in> set hex_ids. row_hex ltc (cols df_shots) r = Inr h) rows_m)"
      by blast
    from c have "apply_cells ltc (cols df_shots) rows_m = Inr cells"
      using apply_cells_rows [OF rne] by simp
    with s ne rm n show ?thesis
      by (simp add: update_shot_count_def Let_def)
  qed
  have c: "\<exists>msg. update_shot_count strptime ltc df_shots selected date_str = Inl (ValueError msg)"
    if s: "map_of selected ''selected_hexbins'' = Some hex_ids" and ne: "hex_ids \<noteq> []"
      and re: "rows_m = []" and nc: "length (cols df_shots) \<noteq> 1"
    using s ne rm re nc by (simp add: update_shot_count_def Let_def apply_cells_def)
  from a b c show ?thesis by blast
qed

theorem update_shot_count_by_selection_witness:
  "update_shot_count
       (\<lambda>s. if s = ''December 2024'' then Some (2024, 12)
            else if s = ''January 2025'' then Some (2025, 1) else None)
       (\<lambda>lat lon res. if lat < 42 then ''h1'' else ''h2'')
       \<lparr>cols = [''id'', ''latitude'', ''longitude'', ''date''],
        rws = [[CStr ''a'', CNum (Fin 41), CNum (Fin (- 71)), CTime (TS 2024 12 3 0)],
               [CStr ''b'', CNum (Fin 42.5), CNum (Fin (- 71)), CTime (TS 2024 12 9 0)],
               [CStr ''c'', CNum (Fin 41.5), CNum (Fin (- 71)), CTime (TS 2024 12 24 0)],
               [CStr ''d'', CNum (Fin 41), CNum (Fin (- 71)), CTime (TS 2024 11 1 0)]]\<rparr>
       [(''selected_ids'', [''x''])] ''December 2024'' = Inr 3
   \<and> update_shot_count
       (\<lambda>s. if s = ''December 2024'' then Some (2024, 12)
            else if s = ''January 2025'' then Some (2025, 1) else None)
       (\<lambda>lat lon res. if lat < 42 then ''h1'' else ''h2'')
       \<lparr>cols = [''id'', ''latitude'', ''longitude'', ''date''],
        rws = [[CStr ''a'', CNum (Fin 41), CNum (Fin (- 71)), CTime (TS 2024 12 3 0)],
               [CStr ''b'', CNum (Fin 42.5), CNum (Fin (- 71)), CTime (TS 2024 12 9 0)],
               [CStr ''c'', CNum (Fin 41.5), CNum (Fin (- 71)), CTime (TS 2024 12 24 0)],
               [CStr ''d'', CNum (Fin 41), CNum (Fin (- 71)), CTime (TS 2024 11 1 0)]]\<rparr>
       [(''selected_hexbins'', [''h1''])] ''December 2024'' = Inr 2
   \<and> (\<exists>msg. update_shot_count
       (\<lambda>s. if s = ''December 2024'' then Some (2024, 12)
            else if s = ''January 2025'' then Some (2025, 1) else None)
       (\<lambda>lat lon res. if lat < 42 then ''h1'' else ''h2'')
       \<lparr>cols = [''id'', ''latitude'', ''longitude'', ''date''],
        rws = [[CStr ''a'', CNum (Fin 41), CNum (Fin (- 71)), CTime (TS 2024 12 3 0)],
               [CStr ''b'', CNum (Fin 42.5), CNum (Fin (- 71)), CTime (TS 2024 12 9 0)],
               [CStr ''c'', CNum (Fin 41.5), CNum (Fin (- 71)), CTime (TS 2024 12 24 0)],
               [CStr ''d'', CNum (Fin 41), CNum (Fin (- 71)), CTime (TS 2024 11 1 0)]]\<rparr>
       [(''selected_hexbins'', [''h1''])] ''January 2025'' = Inl (ValueError msg))"
proof -
  let ?sp = "\<lambda>s. if s = ''December 2024'' then Some (2024 :: int, 12 :: nat)
                 else if s = ''January 2025'' then Some (2025, 1) else None"
  let ?ltc = "\<lambda>(lat::real) (lon::real) (res::nat). if lat < 42 then ''h1'' else ''h2''"
  let ?D = "\<lparr>cols = [''id'', ''latitude'', ''longitude'', ''date''],
        rws = [[CStr ''a'', CNum (Fin 41), CNum (Fin (- 71)), CTime (TS 2024 12 3 0)],
               [CStr ''b'', CNum (Fin 42.5), CNum (Fin (- 71)), CTime (TS 2024 12 9 0)],
               [CStr ''c'', CNum (Fin 41.5), CNum (Fin (- 71)), CTime (TS 2024 12 24 0)],
               [CStr ''d'', CNum (Fin 41), CNum (Fin (- 71)), CTime (TS 2024 11 1 0)]]\<rparr>"
  let ?rows = "filter (\<lambda>r. month_cell (cell_at (cols ?D) r ''date'')
                          = CTime (month_timestamp (date_string_to_year_month ?sp ''December 2024'')))
                        (rws ?D)"
  let ?none = "filter (\<lambda>r. month_cell (cell_at (cols ?D) r ''date'')
                          = CTime (month_timestamp (date_string_to_year_month ?sp ''January 2025'')))
                        (rws ?D)"
  have rows: "?rows = [[CStr ''a'', CNum (Fin 41), CNum (Fin (- 71)), CTime (TS 2024 12 3 0)],
               [CStr ''b'', CNum (Fin 42.5), CNum (Fin (- 71)), CTime (TS 2024 12 9 0)],
               [CStr ''c'', CNum (Fin 41.5), CNum (Fin (- 71)), CTime (TS 2024 12 24 0)]]"
    by (simp add: cell_at_def rget_def month_timestamp_def date_string_to_year_month_def)
  have norows: "?none = []"
    by (simp add: cell_at_def rget_def month_timestamp_def date_string_to_year_month_def)
  have dat: "''date'' \<in> set (cols ?D)" by simp
  have nc: "length (cols ?D) \<noteq> 1" by simp
  have none: "map_of [(''selected_ids'', [''x''])] ''selected_hexbins'' = None" by simp
  have some: "map_of [(''selected_hexbins'', [''h1''])] ''selected_hexbins'' = Some [''h1'']" by simp
  have ne: "?rows \<noteq> []" unfolding rows by simp
  have loc: "list_all (located_row (cols ?D)) ?rows"
    unfolding rows by (simp add: located_row_def row_latlng_def rget_def)
  from update_shot_count_by_selection [OF dat, where selected = "[(''selected_ids'', [''x''])]"
         and strptime = ?sp and date_str = "''December 2024''" and ltc = ?ltc] none
  have one: "update_shot_count ?sp ?ltc ?D [(''selected_ids'', [''x''])] ''December 2024'' = Inr (length ?rows)"
    by blast
  from update_shot_count_by_selection [OF dat, where selected = "[(''selected_hexbins'', [''h1''])]"
         and strptime = ?sp and date_str = "''December 2024''" and ltc = ?ltc and hex_ids = "[''h1'']"]
       some ne loc
  have two: "update_shot_count ?sp ?ltc ?D [(''selected_hexbins'', [''h1''])] ''December 2024''
               = Inr (length (filter (\<lambda>r. \<exists>h \<in> set [''h1'']. row_hex ?ltc (cols ?D) r = Inr h) ?rows))"
    by blast
  from update_shot_count_by_selection [OF dat, where selected = "[(''selected_hexbins'', [''h1''])]"
         and strptime = ?sp and date_str = "''January 2025''" and ltc = ?ltc and hex_ids = "[''h1'']"]
       some norows nc
  have three: "\<exists>msg. update_shot_count ?sp ?ltc ?D [(''selected_hexbins'', [''h1''])] ''January 2025''
                 = Inl (ValueError msg)"
    by blast
  from one have o: "update_shot_count ?sp ?ltc ?D [(''selected_ids'', [''x''])] ''December 2024'' = Inr 3"
    unfolding rows by simp
  from two have t: "update_shot_count ?sp ?ltc ?D [(''selected_hexbins'', [''h1''])] ''December 2024'' = Inr 2"
    unfolding rows by (simp add: row_hex_def row_latlng_def rget_def)
  from o t three show ?thesis by blast
qed
section \<open>Properties of the streaming record decoder\<close>

lemma chunkings_complete:
  "[] \<notin> set cs \<Longrightarrow> concat cs = s \<Longrightarrow> cs \<in> set (chunkings s)"
proof (induction s arbitrary: cs)
  case Nil
  then have "cs = []" by (cases cs) auto
  then show ?case by simp
next
  case (Cons x xs)
  from Cons.prems obtain c cs' where cs: "cs = c # cs'" by (cases cs) auto
  with Cons.prems obtain c' where c: "c = x # c'" by (cases c) auto
  show ?case
  proof (cases c')
    case Nil
    with Cons.prems cs c have "[] \<notin> set cs'" "concat cs' = xs" by auto
    from Cons.IH [OF this] have mem: "cs' \<in> set (chunkings xs)" .
    show ?thesis
    proof (cases cs')
      case Nil
      with mem cs c \<open>c' = []\<close> show ?thesis by force
    next
      case (Cons d ds)
      with mem cs c \<open>c' = []\<close> show ?thesis by force
    qed
  next
    case (Cons y ys)
    with Cons.prems cs c have "[] \<notin> set (c' # cs')" "concat (c' # cs') = xs" by auto
    from Cons.IH [OF this] have "c' # cs' \<in> set (chunkings xs)" .
    with cs c show ?thesis by force
  qed
qed

lemma feed_empty: "feed st [] = st"
  by (cases st) (simp add: feed_def)

lemma foldl_feed_nonempty:
  "foldl feed st (filter (\<lambda>c. c \<noteq> []) cs) = foldl feed st cs"
  by (induction cs arbitrary: st) (simp_all add: feed_empty)

lemma assemble_nonempty: "assemble (filter (\<lambda>c. c \<noteq> []) cs) = assemble cs"
  by (simp add: assemble_def foldl_feed_nonempty)

lemma concat_filter_nonempty: "concat (filter (\<lambda>c. c \<noteq> []) cs) = concat cs"
  by (induction cs) auto

lemma empty_array_chunkings:
  "list_all (\<lambda>cs. assemble cs = ''[]'') (chunkings [CHR ''['', LF, LF, CHR '']''])"
  by code_simp

lemma split_first_occurs:
  "s = b @ sep @ a \<Longrightarrow> split_first sep s \<noteq> None"
proof (induction s arbitrary: b)
  case Nil
  then show ?case by simp
next
  case (Cons c cs)
  show ?case
  proof (cases "take (length sep) (c # cs) = sep")
    case True
    then show ?thesis by simp
  next
    case False
    have "b \<noteq> []"
    proof
      assume "b = []"
      with Cons.prems have "take (length sep) (c # cs) = sep" by simp
      with False show False by simp
    qed
    then obtain b' where b: "b = c # b'" using Cons.prems by (cases b) auto
    with Cons.prems have "cs = b' @ sep @ a" by simp
    from Cons.IH [OF this] False show ?thesis by (auto split: option.splits)
  qed
qed

lemma split_first_sound:
  "split_first sep s = Some (b, a) \<Longrightarrow> s = b @ sep @ a"
proof (induction s arbitrary: b)
  case Nil
  then show ?case by (simp split: if_splits)
next
  case (Cons c cs)
  show ?case
  proof (cases "take (length sep) (c # cs) = sep")
    case True
    with Cons.prems have "b = []" "a = drop (length sep) (c # cs)" by simp_all
    with True show ?thesis by (metis append_Nil append_take_drop_id)
  next
    case False
    with Cons.prems obtain b' where s: "split_first sep cs = Some (b', a)" and b: "b = c # b'"
      by (auto split: option.splits)
    from Cons.IH [OF s] b show ?thesis by simp
  qed
qed

lemma contains_append: "contains sep xs \<Longrightarrow> contains sep (xs @ ys)"
proof -
  assume "contains sep xs"
  then obtain b a where "split_first sep xs = Some (b, a)"
    by (auto simp: contains_def)
  from split_first_sound [OF this] have "xs @ ys = b @ sep @ (a @ ys)" by simp
  from split_first_occurs [OF this] show ?thesis by (simp add: contains_def)
qed

lemma foldl_feed_unopened:
  "\<not> contains [CHR ''['', LF] (buf @ concat cs) \<Longrightarrow>
     foldl feed ([], buf, False) cs = ([], buf @ concat cs, False)"
proof (induction cs arbitrary: buf)
  case Nil
  then show ?case by simp
next
  case (Cons c cs)
  from Cons.prems have no: "\<not> contains [CHR ''['', LF] ((buf @ c) @ concat cs)" by simp
  then have "\<not> contains [CHR ''['', LF] (buf @ c)"
    using contains_append by blast
  then have "feed ([], buf, False) c = ([], buf @ c, False)"
    by (simp add: feed_def Let_def)
  with Cons.IH [OF no] show ?case by simp
qed

lemma assemble_unopened:
  "\<not> contains [CHR ''['', LF] (concat cs) \<Longrightarrow> assemble cs = []"
  using foldl_feed_unopened [of "[]" cs] by (simp add: assemble_def)

lemma assemble_empty_array:
  assumes "concat cs = [CHR ''['', LF, LF, CHR '']'']"
  shows "assemble cs = ''[]''"
proof -
  let ?cs = "filter (\<lambda>c. c \<noteq> []) cs"
  have "[] \<notin> set ?cs" by simp
  moreover have "concat ?cs = [CHR ''['', LF, LF, CHR '']'']"
    using assms by (simp add: concat_filter_nonempty)
  ultimately have "?cs \<in> set (chunkings [CHR ''['', LF, LF, CHR '']''])"
    by (rule chunkings_complete)
  moreover from empty_array_chunkings
  have "\<forall>cs \<in> set (chunkings [CHR ''['', LF, LF, CHR '']'']). assemble cs = ''[]''"
    by (simp only: list_all_iff)
  ultimately have "assemble ?cs = ''[]''"
    by blast
  then show ?thesis by (simp add: assemble_nonempty)
qed

lemma contains_iff: "contains sep s = (\<exists>b a. s = b @ sep @ a)"
proof
  assume "contains sep s"
  then obtain b a where "split_first sep s = Some (b, a)" by (auto simp: contains_def)
  from split_first_sound [OF this] show "\<exists>b a. s = b @ sep @ a" by blast
next
  assume "\<exists>b a. s = b @ sep @ a"
  then obtain b a where "s = b @ sep @ a" by blast
  from split_first_occurs [OF this] show "contains sep s" by (simp add: contains_def)
qed

lemma contains_suffix: "contains sep ys \<Longrightarrow> contains sep (xs @ ys)"
proof -
  assume "contains sep ys"
  then obtain b a where "ys = b @ sep @ a" by (auto simp: contains_iff)
  then have "xs @ ys = (xs @ b) @ sep @ a" by simp
  then show ?thesis unfolding contains_iff by blast
qed

lemma split_first_at:
  assumes "\<not> contains [x, y] b" and "x \<noteq> y"
  shows "split_first [x, y] (b @ [x, y] @ a) = Some (b, a)"
  using assms(1)
proof (induction b)
  case Nil
  then show ?case by simp
next
  case (Cons c b)
  have nb: "\<not> contains [x, y] b"
    using Cons.prems contains_suffix [of "[x, y]" b "[c]"] by auto
  have "take 2 (c # b @ [x, y] @ a) \<noteq> [x, y]"
  proof
    assume t: "take 2 (c # b @ [x, y] @ a) = [x, y]"
    show False
    proof (cases b)
      case Nil
      with t assms(2) show False by simp
    next
      case (Cons d b')
      with t have "c # b = [] @ [x, y] @ b'" by simp
      then have "contains [x, y] (c # b)" unfolding contains_iff by blast
      with Cons.prems show False by simp
    qed
  qed
  with Cons.IH [OF nb] show ?case by simp
qed

lemma take_append_le: "n \<le> length xs \<Longrightarrow> take n (xs @ ys) = take n xs"
  by simp

lemma drop_append_le: "n \<le> length xs \<Longrightarrow> drop n (xs @ ys) = drop n xs @ ys"
  by simp

lemma split_first_append:
  "split_first sep s = Some (b, a) \<Longrightarrow> split_first sep (s @ t) = Some (b, a @ t)"
proof (induction s arbitrary: b)
  case Nil
  then show ?case by (cases t) (auto split: if_splits)
next
  case (Cons c cs)
  show ?case
  proof (cases "take (length sep) (c # cs) = sep")
    case True
    have "length sep = length (take (length sep) (c # cs))" using True by simp
    also have "\<dots> \<le> length (c # cs)" by simp
    finally have le: "length sep \<le> length (c # cs)" .
    from True Cons.prems have ba: "b = []" "a = drop (length sep) (c # cs)" by simp_all
    from take_append_le [OF le, of t] True
    have tk: "take (length sep) ((c # cs) @ t) = sep" by simp
    from drop_append_le [OF le, of t]
    have dr: "drop (length sep) ((c # cs) @ t) = drop (length sep) (c # cs) @ t" .
    have "split_first sep ((c # cs) @ t) = Some ([], drop (length sep) ((c # cs) @ t))"
      using tk by simp
    with dr ba show ?thesis by simp
  next
    case False
    with Cons.prems obtain b' where s: "split_first sep cs = Some (b', a)" and b: "b = c # b'"
      by (auto split: option.splits)
    from split_first_shorter [OF s] have le: "length sep \<le> length (c # cs)" by simp
    from take_append_le [OF le, of t] False
    have "take (length sep) ((c # cs) @ t) \<noteq> sep" by simp
    with Cons.IH [OF s] b show ?thesis by simp
  qed
qed

lemma not_contains_None: "\<not> contains sep s \<Longrightarrow> split_first sep s = None"
  unfolding contains_def by blast

lemma drain_no_tokens:
  assumes "\<not> contains [CHR '','', LF] s" and "\<not> contains [LF, CHR '']''] s"
  shows "drain out s = (out, s, True)"
  by (subst drain.simps)
     (simp add: not_contains_None [OF assms(1)] not_contains_None [OF assms(2)])

lemma drain_elems:
  assumes "\<forall>e \<in> set es. \<not> contains [CHR '','', LF] e"
  shows "drain out (concat (map (\<lambda>e. e @ [CHR '','', LF]) es) @ rest)
           = drain (out @ concat (map (\<lambda>e. e @ '','') es)) rest"
  using assms
proof (induction es arbitrary: out)
  case Nil
  then show ?case by simp
next
  case (Cons e es)
  have ne: "CHR '','' \<noteq> LF" by (simp add: LF_def)
  from Cons.prems have "\<not> contains [CHR '','', LF] e" by simp
  from split_first_at [OF this ne, of "concat (map (\<lambda>e. e @ [CHR '','', LF]) es) @ rest"]
  have sp: "split_first [CHR '','', LF] (concat (map (\<lambda>e. e @ [CHR '','', LF]) (e # es)) @ rest)
              = Some (e, concat (map (\<lambda>e. e @ [CHR '','', LF]) es) @ rest)"
    by simp
  have "drain out (concat (map (\<lambda>e. e @ [CHR '','', LF]) (e # es)) @ rest)
          = drain (out @ e @ '','') (concat (map (\<lambda>e. e @ [CHR '','', LF]) es) @ rest)"
    by (subst drain.simps) (simp only: sp option.case prod.case)
  also have "\<dots> = drain ((out @ e @ '','') @ concat (map (\<lambda>e. e @ '','') es)) rest"
    using Cons.prems by (intro Cons.IH) simp
  finally show ?case by simp
qed

lemma drain_incremental:
  "drain out buf = (out', buf', True) \<Longrightarrow> drain out (buf @ c) = drain out' (buf' @ c)"
proof (induction out buf rule: drain.induct)
  case (1 json_data buffer)
  show ?case
  proof (cases "split_first [CHR '','', LF] buffer")
    case (Some p)
    obtain obj rest where p: "p = (obj, rest)" by (cases p)
    from Some p have sp: "split_first [CHR '','', LF] buffer = Some (obj, rest)" by simp
    from "1.prems" sp have d: "drain (json_data @ obj @ '','') rest = (out', buf', True)"
      by (subst (asm) drain.simps) simp
    from split_first_append [OF sp, of c]
    have "drain json_data (buffer @ c) = drain (json_data @ obj @ '','') (rest @ c)"
      by (subst drain.simps) simp
    also have "\<dots> = drain out' (buf' @ c)"
      using "1.IH"(1) [OF sp refl d] .
    finally show ?thesis .
  next
    case None
    show ?thesis
    proof (cases "split_first [LF, CHR '']''] buffer")
      case (Some q)
      with None "1.prems" show ?thesis
        by (subst (asm) drain.simps) (auto split: prod.splits)
    next
      case None2: None
      with None "1.prems" have "out' = json_data" "buf' = buffer"
        by (subst (asm) drain.simps, simp)+
      then show ?thesis by simp
    qed
  qed
qed

lemma drain_stays_open:
  "\<not> contains [LF, CHR '']''] s \<Longrightarrow> \<exists>out' buf' p. drain out s = (out', buf', True) \<and> s = p @ buf'"
proof (induction out s rule: drain.induct)
  case (1 json_data buffer)
  show ?case
  proof (cases "split_first [CHR '','', LF] buffer")
    case (Some p)
    obtain obj rest where p: "p = (obj, rest)" by (cases p)
    from Some p have sp: "split_first [CHR '','', LF] buffer = Some (obj, rest)" by simp
    from split_first_sound [OF sp] have b: "buffer = (obj @ [CHR '','', LF]) @ rest" by simp
    with "1.prems" have "\<not> contains [LF, CHR '']''] rest"
      using contains_suffix by metis
    from "1.IH"(1) [OF sp refl this] obtain out' buf' q where
      d: "drain (json_data @ obj @ '','') rest = (out', buf', True)" and r: "rest = q @ buf'" by blast
    have "drain json_data buffer = drain (json_data @ obj @ '','') rest"
      using sp by (subst drain.simps) simp
    with d b r show ?thesis by (intro exI [of _ out'] exI [of _ buf'] exI [of _ "(obj @ [CHR '','', LF]) @ q"]) simp
  next
    case None
    with not_contains_None [OF "1.prems"] have "drain json_data buffer = (json_data, buffer, True)"
      by (subst drain.simps) simp
    then show ?thesis by (intro exI [of _ json_data] exI [of _ buffer] exI [of _ "[]"]) simp
  qed
qed

lemma contains_prefix_free: "\<not> contains sep (xs @ ys) \<Longrightarrow> \<not> contains sep xs"
  using contains_append by blast

lemma contains_suffix_free: "\<not> contains sep (xs @ ys) \<Longrightarrow> \<not> contains sep ys"
  using contains_suffix by blast

lemma feed_open:
  "c \<noteq> [] \<Longrightarrow> feed (out, buf, True) c = drain out (buf @ c)"
  by (simp add: feed_def Let_def)

lemma foldl_feed_all_empty: "concat cs = [] \<Longrightarrow> foldl feed st cs = st"
  by (induction cs arbitrary: st) (simp_all add: feed_empty)

lemma free_before_last:
  assumes "\<not> contains sep (butlast (xs @ ys))" and "ys \<noteq> []"
  shows "\<not> contains sep xs"
proof -
  from assms(2) have "butlast (xs @ ys) = xs @ butlast ys" by (simp add: butlast_append)
  with assms(1) show ?thesis using contains_prefix_free by metis
qed

lemma foldl_feed_open:
  assumes "drain o0 b0 = (out, buf, True)" and "\<not> contains [LF, CHR '']''] (butlast (b0 @ concat cs))"
  shows "foldl feed (out, buf, True) cs = drain o0 (b0 @ concat cs)"
  using assms
proof (induction cs arbitrary: out buf b0)
  case Nil
  then show ?case by simp
next
  case (Cons c cs)
  show ?case
  proof (cases "c = []")
    case True
    with Cons.IH [OF Cons.prems(1)] Cons.prems(2) show ?thesis by (simp add: feed_empty)
  next
    case False
    have "feed (out, buf, True) c = drain out (buf @ c)" by (rule feed_open [OF False])
    also have "\<dots> = drain o0 (b0 @ c)" by (rule drain_incremental [OF Cons.prems(1), symmetric])
    finally have f: "feed (out, buf, True) c = drain o0 (b0 @ c)" .
    show ?thesis
    proof (cases "concat cs = []")
      case True
      from f foldl_feed_all_empty [OF True, of "drain o0 (b0 @ c)"]
      have "foldl feed (out, buf, True) (c # cs) = drain o0 (b0 @ c)" by simp
      also from True have "b0 @ c = b0 @ concat (c # cs)" by simp
      finally show ?thesis .
    next
      case ne: False
      from Cons.prems(2) have nc: "\<not> contains [LF, CHR '']''] (butlast ((b0 @ c) @ concat cs))" by simp
      from free_before_last [OF nc ne] have "\<not> contains [LF, CHR '']''] (b0 @ c)" .
      from drain_stays_open [OF this, of o0] obtain out' buf' where
        d: "drain o0 (b0 @ c) = (out', buf', True)" by blast
      from Cons.IH [OF d nc] f d show ?thesis by simp
    qed
  qed
qed

lemma contains_tl: "contains sep cs \<Longrightarrow> contains sep (c # cs)"
  using contains_suffix [of sep cs "[c]"] by simp

lemma remove_open_free: "\<not> contains [CHR ''['', LF] s \<Longrightarrow> remove_open s = s"
proof (induction s rule: remove_open.induct)
  case (1 a b cs)
  have nab: "\<not> (a = CHR ''['' \<and> b = LF)"
  proof
    assume "a = CHR ''['' \<and> b = LF"
    then have "a # b # cs = [] @ [CHR ''['', LF] @ cs" by simp
    then have "contains [CHR ''['', LF] (a # b # cs)" unfolding contains_iff by blast
    with "1.prems" show False by simp
  qed
  from "1.prems" have nb: "\<not> contains [CHR ''['', LF] (b # cs)"
    using contains_tl by blast
  from nab have "remove_open (a # b # cs) = a # remove_open (b # cs)" by auto
  also have "remove_open (b # cs) = b # cs" by (rule "1.IH"(2) [OF nab nb])
  finally show ?case .
qed simp_all

lemma foldl_feed_stream:
  assumes "buf @ concat cs = [CHR ''['', LF] @ body"
    and "\<not> contains [CHR ''['', LF] buf"
    and "\<not> contains [CHR ''['', LF] body"
    and "\<not> contains [LF, CHR '']''] (butlast body)"
  shows "foldl feed ([], buf, False) cs = drain ''['' body"
  using assms(1,2)
proof (induction cs arbitrary: buf)
  case Nil
  then have "buf = [] @ [CHR ''['', LF] @ body" by simp
  then have "contains [CHR ''['', LF] buf" unfolding contains_iff by blast
  with Nil.prems(2) show ?case by simp
next
  case (Cons c cs)
  show ?case
  proof (cases "c = []")
    case True
    with Cons.IH [of buf] Cons.prems show ?thesis by (simp add: feed_empty)
  next
    case False
    from Cons.prems(1) have whole: "(buf @ c) @ concat cs = [CHR ''['', LF] @ body" by simp
    show ?thesis
    proof (cases "contains [CHR ''['', LF] (buf @ c)")
      case no: False
      with False have "feed ([], buf, False) c = ([], buf @ c, False)"
        by (simp add: feed_def Let_def)
      with Cons.IH [OF whole no] show ?thesis by simp
    next
      case yes: True
      then obtain b a where ba: "buf @ c = b @ [CHR ''['', LF] @ a"
        unfolding contains_iff by blast
      then have len: "2 \<le> length (buf @ c)" by simp
      define p where "p = drop 2 (buf @ c)"
      have "take 2 (buf @ c) = take 2 ((buf @ c) @ concat cs)"
        by (rule take_append_le [OF len, symmetric])
      also have "\<dots> = take 2 ([CHR ''['', LF] @ body)" by (simp only: whole)
      also have "\<dots> = [CHR ''['', LF]" by simp
      finally have tk: "take 2 (buf @ c) = [CHR ''['', LF]" .
      have bc: "buf @ c = [CHR ''['', LF] @ p"
        unfolding p_def using tk by (metis append_take_drop_id)
      with whole have body: "body = p @ concat cs" by simp
      from assms(3) body have np: "\<not> contains [CHR ''['', LF] p"
        using contains_prefix_free by blast
      have "remove_open (buf @ c) = remove_open p"
        unfolding bc by simp
      also have "\<dots> = p" by (rule remove_open_free [OF np])
      finally have ro: "remove_open (buf @ c) = p" .
      from False yes ro have f: "feed ([], buf, False) c = drain ''['' p"
        by (simp add: feed_def Let_def)
      show ?thesis
      proof (cases "concat cs = []")
        case True
        from f foldl_feed_all_empty [OF True, of "drain ''['' p"]
        have "foldl feed ([], buf, False) (c # cs) = drain ''['' p" by simp
        also from True body have "p = body" by simp
        finally show ?thesis .
      next
        case ne: False
        from assms(4) body have ncl: "\<not> contains [LF, CHR '']''] (butlast (p @ concat cs))" by simp
        from free_before_last [OF ncl ne] have "\<not> contains [LF, CHR '']''] p" .
        from drain_stays_open [OF this, of "''[''"] obtain out' buf' where
          d: "drain ''['' p = (out', buf', True)" by blast
        from foldl_feed_open [OF d ncl] f d body show ?thesis by simp
      qed
    qed
  qed
qed

lemma contains_Nil_iff: "contains sep [] = (sep = [])"
  by (simp add: contains_def)

lemma free_butlast: "\<not> contains sep s \<Longrightarrow> \<not> contains sep (butlast s)"
proof (cases "s = []")
  case True
  then show "\<not> contains sep s \<Longrightarrow> \<not> contains sep (butlast s)" by simp
next
  case False
  then have "s = butlast s @ [last s]" by simp
  then show "\<not> contains sep s \<Longrightarrow> \<not> contains sep (butlast s)"
    using contains_append by metis
qed

lemma assemble_stream:
  assumes "concat cs = [CHR ''['', LF] @ body"
    and "\<not> contains [CHR ''['', LF] body"
    and "\<not> contains [LF, CHR '']''] (butlast body)"
  shows "assemble cs = fst (drain ''['' body)"
proof -
  have "\<not> contains [CHR ''['', LF] []" by (simp add: contains_Nil_iff)
  from foldl_feed_stream [of "[]" cs body, OF _ this assms(2,3)] assms(1)
  show ?thesis by (simp add: assemble_def)
qed

lemma assemble_truncated:
  assumes "concat cs = [CHR ''['', LF] @ concat (map (\<lambda>e. e @ [CHR '','', LF]) es) @ tail"
    and "\<forall>e \<in> set es. \<not> contains [CHR '','', LF] e"
    and "\<not> contains [CHR '','', LF] tail"
    and "\<not> contains [CHR ''['', LF] (concat (map (\<lambda>e. e @ [CHR '','', LF]) es) @ tail)"
    and "\<not> contains [LF, CHR '']''] (concat (map (\<lambda>e. e @ [CHR '','', LF]) es) @ tail)"
  shows "assemble cs = ''['' @ concat (map (\<lambda>e. e @ '','') es)"
proof -
  let ?body = "concat (map (\<lambda>e. e @ [CHR '','', LF]) es) @ tail"
  from assms(5) have nt: "\<not> contains [LF, CHR '']''] tail" by (rule contains_suffix_free)
  have "assemble cs = fst (drain ''['' ?body)"
    by (rule assemble_stream [OF assms(1) assms(4) free_butlast [OF assms(5)]])
  also have "drain ''['' ?body = drain (''['' @ concat (map (\<lambda>e. e @ '','') es)) tail"
    by (rule drain_elems [OF assms(2)])
  also have "\<dots> = (''['' @ concat (map (\<lambda>e. e @ '','') es), tail, True)"
    by (rule drain_no_tokens [OF assms(3) nt])
  finally show ?thesis by simp
qed

lemma free_snoc:
  assumes "\<not> contains [x, y] s" and "z \<noteq> y"
  shows "\<not> contains [x, y] (s @ [z])"
proof
  assume "contains [x, y] (s @ [z])"
  then obtain b a where ba: "s @ [z] = b @ [x, y] @ a" unfolding contains_iff by blast
  show False
  proof (cases a rule: rev_cases)
    case Nil
    with ba have "s @ [z] = (b @ [x]) @ [y]" by simp
    then have "z = y" by (simp only: append1_eq_conv)
    with assms(2) show False by simp
  next
    case (snoc a' w)
    with ba have "s @ [z] = (b @ [x, y] @ a') @ [w]" by simp
    then have "s = b @ [x, y] @ a'" by (simp only: append1_eq_conv)
    then have "contains [x, y] s" unfolding contains_iff by blast
    with assms(1) show False by simp
  qed
qed

lemma assemble_wellformed:
  assumes "concat cs = [CHR ''['', LF] @ concat (map (\<lambda>e. e @ [CHR '','', LF]) es) @ lst @ [LF, CHR '']'']"
    and "\<forall>e \<in> set es. \<not> contains [CHR '','', LF] e"
    and "\<not> contains [CHR '','', LF] (lst @ [LF, CHR '']''])"
    and "\<not> contains [CHR ''['', LF] (concat (map (\<lambda>e. e @ [CHR '','', LF]) es) @ lst @ [LF, CHR '']''])"
    and "\<not> contains [LF, CHR '']''] (concat (map (\<lambda>e. e @ [CHR '','', LF]) es) @ lst)"
    and "strip lst \<noteq> []"
  shows "assemble cs = ''['' @ concat (map (\<lambda>e. e @ '','') es) @ lst @ '']''"
proof -
  let ?pre = "concat (map (\<lambda>e. e @ [CHR '','', LF]) es)"
  let ?body = "?pre @ lst @ [LF, CHR '']'']"
  have ne: "LF \<noteq> CHR '']''" by (simp add: LF_def)
  have bl: "butlast ?body = (?pre @ lst) @ [LF]" by (simp add: butlast_append)
  have nb: "\<not> contains [LF, CHR '']''] (butlast ?body)"
    unfolding bl by (rule free_snoc [OF assms(5) ne])
  from assms(5) have nl: "\<not> contains [LF, CHR '']''] lst" by (rule contains_suffix_free)
  from split_first_at [OF nl ne, of "[]"]
  have sp: "split_first [LF, CHR '']''] (lst @ [LF, CHR '']'']) = Some (lst, [])" by simp
  have "assemble cs = fst (drain ''['' ?body)"
    by (rule assemble_stream [OF assms(1) assms(4) nb])
  also have "drain ''['' ?body = drain (''['' @ concat (map (\<lambda>e. e @ '','') es)) (lst @ [LF, CHR '']''])"
    by (rule drain_elems [OF assms(2)])
  also have "\<dots> = ((''['' @ concat (map (\<lambda>e. e @ '','') es)) @ lst @ '']'', [], False)"
    using assms(6) by (subst drain.simps) (simp add: not_contains_None [OF assms(3)] sp)
  finally show ?thesis by simp
qed

lemma rstrip_snoc: "\<not> is_space c \<Longrightarrow> rstrip (s @ [c]) = s @ [c]"
  by (simp add: rstrip_def)

lemma repair_trailing_comma: "repair (x @ '','') = x @ '']''"
proof -
  have sp: "\<not> is_space (CHR '','')" by (simp add: is_space_def)
  have r: "rstrip (x @ '','') = x @ '',''" by (rule rstrip_snoc [OF sp])
  show ?thesis unfolding repair_def r by (simp add: endswith_def)
qed

lemma strip_bracketed:
  "strip (''['' @ x @ '','') = ''['' @ x @ '',''"
proof -
  have a: "\<not> is_space (CHR '','')" by (simp add: is_space_def)
  have b: "\<not> is_space (CHR ''['')" by (simp add: is_space_def)
  have "lstrip (''['' @ x @ '','') = ''['' @ x @ '',''" using b by (simp add: lstrip_def)
  moreover have "rstrip ((''['' @ x) @ '','') = (''['' @ x) @ '',''" by (rule rstrip_snoc [OF a])
  ultimately show ?thesis by (simp add: strip_def)
qed

lemma concat_snoc_last:
  "es \<noteq> [] \<Longrightarrow> concat (map f es) = concat (map f (butlast es)) @ f (last es)"
proof -
  assume "es \<noteq> []"
  then have "es = butlast es @ [last es]" by simp
  then have "concat (map f es) = concat (map f (butlast es @ [last es]))" by simp
  then show ?thesis by simp
qed

lemma assemble_open_close:
  assumes "concat cs = [CHR ''['', LF, CHR '']'']"
  shows "assemble cs = ''[''"
proof -
  have c: "concat cs = [CHR ''['', LF] @ '']''" using assms by simp
  have a: "\<not> contains [CHR ''['', LF] '']''" by (simp add: contains_def)
  have b: "\<not> contains [LF, CHR '']''] (butlast '']'')" by (simp add: contains_def)
  have "fst (drain ''['' '']'') = ''[''" by code_simp
  with assemble_stream [OF c a b] show ?thesis by simp
qed

text \<open>
  Claim C9. A stream answered with status 200 hands the parser the text the loop has
  written. For the empty array in the stream's own format (the opening \<open>[\<close> and newline,
  then the newline and \<open>]\<close>), cut into chunks in any way, this text is \<open>[]\<close> and the
  decoder returns what the parser gives for it. For a body without the opening token, the
  empty body and the body \<open>[]\<close> among them, the text is empty, and for the body of \<open>[\<close>,
  newline and \<open>]\<close> it is \<open>[\<close>: the decoder then returns the empty table only when the
  message of the parser's failure contains one of the two phrases the code looks for, and
  raises this failure otherwise, the repair being skipped for these texts. A payload the
  parser rejects with another message and whose repair it rejects as well raises the first
  parse failure.
\<close>

theorem stream_to_dataframe_empty_payload:
  assumes ok: "status_code resp = 200"
  shows "(concat (body_chunks resp) = [CHR ''['', LF, LF, CHR '']''] \<and> read_json ''[]'' = Inr df
            \<longrightarrow> stream_to_dataframe read_json resp = Inr df)
       \<and> (\<not> contains [CHR ''['', LF] (concat (body_chunks resp)) \<and> read_json [] = Inl msg
            \<longrightarrow> stream_to_dataframe read_json resp =
                  (if contains ''Unexpected end of file'' msg \<or> contains ''Empty data passed'' msg
                   then Inr empty_table else Inl (ValueError msg)))
       \<and> (concat (body_chunks resp) = [CHR ''['', LF, CHR '']''] \<and> read_json ''['' = Inl msg
            \<longrightarrow> stream_to_dataframe read_json resp =
                  (if contains ''Unexpected end of file'' msg \<or> contains ''Empty data passed'' msg
                   then Inr empty_table else Inl (ValueError msg)))
       \<and> (read_json (assemble (body_chunks resp)) = Inl msg
            \<and> \<not> contains ''Unexpected end of file'' msg \<and> \<not> contains ''Empty data passed'' msg
            \<and> (\<forall>t. read_json (repair (assemble (body_chunks resp))) \<noteq> Inr t)
            \<longrightarrow> stream_to_dataframe read_json resp = Inl (ValueError msg))"
proof -
  have res: "stream_to_dataframe read_json resp = parse_or_repair read_json (assemble (body_chunks resp))"
    using ok by (simp add: stream_to_dataframe_def)
  have a: "stream_to_dataframe read_json resp = Inr df"
    if "concat (body_chunks resp) = [CHR ''['', LF, LF, CHR '']'']" "read_json ''[]'' = Inr df"
    using that assemble_empty_array [OF that(1)] res by (simp add: parse_or_repair_def)
  have e: "strip [] = []" by (simp add: strip_def lstrip_def rstrip_def)
  have b: "stream_to_dataframe read_json resp =
             (if contains ''Unexpected end of file'' msg \<or> contains ''Empty data passed'' msg
              then Inr empty_table else Inl (ValueError msg))"
    if "\<not> contains [CHR ''['', LF] (concat (body_chunks resp))" "read_json [] = Inl msg"
    using that(2) assemble_unopened [OF that(1)] res e
    by (simp add: parse_or_repair_def)
  have o: "strip ''['' = ''[''" by (simp add: strip_def lstrip_def rstrip_def is_space_def)
  have c: "stream_to_dataframe read_json resp =
             (if contains ''Unexpected end of file'' msg \<or> contains ''Empty data passed'' msg
              then Inr empty_table else Inl (ValueError msg))"
    if "concat (body_chunks resp) = [CHR ''['', LF, CHR '']'']" "read_json ''['' = Inl msg"
    using that(2) assemble_open_close [OF that(1)] res o
    by (simp add: parse_or_repair_def)
  have d: "stream_to_dataframe read_json resp = Inl (ValueError msg)"
    if m: "read_json (assemble (body_chunks resp)) = Inl msg"
      and n1: "\<not> contains ''Unexpected end of file'' msg" and n2: "\<not> contains ''Empty data passed'' msg"
      and r: "\<forall>t. read_json (repair (assemble (body_chunks resp))) \<noteq> Inr t"
  proof -
    from r obtain msg' where "read_json (repair (assemble (body_chunks resp))) = Inl msg'"
      by (cases "read_json (repair (assemble (body_chunks resp)))") auto
    with m n1 n2 res show ?thesis by (simp add: parse_or_repair_def)
  qed
  from a b c d show ?thesis by blast
qed

theorem stream_to_dataframe_empty_payload_witness:
  "stream_to_dataframe
          (\<lambda>s. if s = ''[]'' then Inr empty_table else Inl ''Expected object or value'')
          \<lparr>status_code = 200, body_text = [CHR ''['', LF, LF, CHR '']''],
           body_chunks = [[CHR ''['', LF], [], [LF, CHR '']'']]\<rparr> = Inr empty_table
   \<and> stream_to_dataframe
          (\<lambda>s. if s = ''[]'' then Inr empty_table else Inl ''Expected object or value'')
          \<lparr>status_code = 200, body_text = [], body_chunks = []\<rparr>
        = Inl (ValueError ''Expected object or value'')
   \<and> stream_to_dataframe
          (\<lambda>s. if s = ''[]'' then Inr empty_table else Inl ''Expected object or value'')
          \<lparr>status_code = 200, body_text = ''[]'', body_chunks = [''[]'']\<rparr>
        = Inl (ValueError ''Expected object or value'')
   \<and> stream_to_dataframe
          (\<lambda>s. if s = ''[]'' then Inr empty_table else Inl ''Expected object or value'')
          \<lparr>status_code = 200, body_text = [CHR ''['', LF, CHR '']''],
           body_chunks = [[CHR ''['', LF, CHR '']'']]\<rparr>
        = Inl (ValueError ''Expected object or value'')
   \<and> stream_to_dataframe
          (\<lambda>s. if s = ''[]'' then Inr empty_table else Inl ''Expected object or value'')
          \<lparr>status_code = 200, body_text = [CHR ''['', LF] @ ''{,'' @ [LF],
           body_chunks = [[CHR ''['', LF] @ ''{,'' @ [LF]]\<rparr>
        = Inl (ValueError ''Expected object or value'')"
proof -
  let ?rd = "\<lambda>s. if s = ''[]'' then Inr empty_table else Inl ''Expected object or value''"
  let ?r1 = "\<lparr>status_code = 200, body_text = [CHR ''['', LF, LF, CHR '']''],
           body_chunks = [[CHR ''['', LF], [], [LF, CHR '']'']]\<rparr>"
  let ?r2 = "\<lparr>status_code = 200, body_text = [], body_chunks = []\<rparr>"
  let ?r3 = "\<lparr>status_code = 200, body_text = ''[]'', body_chunks = [''[]'']\<rparr>"
  let ?r4 = "\<lparr>status_code = 200, body_text = [CHR ''['', LF, CHR '']''],
           body_chunks = [[CHR ''['', LF, CHR '']'']]\<rparr>"
  let ?r5 = "\<lparr>status_code = 200, body_text = [CHR ''['', LF] @ ''{,'' @ [LF],
           body_chunks = [[CHR ''['', LF] @ ''{,'' @ [LF]]\<rparr>"
  have n1: "\<not> contains ''Unexpected end of file'' ''Expected object or value''"
    by code_simp
  have n2: "\<not> contains ''Empty data passed'' ''Expected object or value''"
    by code_simp
  have one: "stream_to_dataframe ?rd ?r1 = Inr empty_table"
    using stream_to_dataframe_empty_payload [of ?r1 ?rd empty_table] by simp
  have c2: "\<not> contains [CHR ''['', LF] (concat (body_chunks ?r2))"
    by (simp add: contains_def)
  have two: "stream_to_dataframe ?rd ?r2 = Inl (ValueError ''Expected object or value'')"
    using stream_to_dataframe_empty_payload [of ?r2 ?rd _ "''Expected object or value''"] c2 n1 n2
    by simp
  have c3: "\<not> contains [CHR ''['', LF] (concat (body_chunks ?r3))"
    by (simp add: contains_def LF_def)
  have three: "stream_to_dataframe ?rd ?r3 = Inl (ValueError ''Expected object or value'')"
    using stream_to_dataframe_empty_payload [of ?r3 ?rd _ "''Expected object or value''"] c3 n1 n2
    by simp
  have four: "stream_to_dataframe ?rd ?r4 = Inl (ValueError ''Expected object or value'')"
    using stream_to_dataframe_empty_payload [of ?r4 ?rd _ "''Expected object or value''"] n1 n2
    by simp
  have a5: "assemble (body_chunks ?r5) = ''[{,''"
    by code_simp
  have rp: "repair ''[{,'' = ''[{]''"
    by code_simp
  have five: "stream_to_dataframe ?rd ?r5 = Inl (ValueError ''Expected object or value'')"
    using stream_to_dataframe_empty_payload [of ?r5 ?rd _ "''Expected object or value''"] n1 n2
    unfolding a5 rp by simp
  from one two three four five show ?thesis by (intro conjI)
qed
text \<open>
  Claim C2, as the code has it. A stream answered with status 200 that opens the array,
  delivers elements each followed by the delimiter (comma, newline) and then breaks off,
  cut into chunks in any way: the decoder writes the delimited elements and leaves the
  text after the last delimiter in its buffer. When the parser rejects the text written
  (with a message other than the two taken for an empty input), the repair strips the
  trailing comma and appends the closing bracket, and the result is the parse of the array
  of the delimited elements: the rows of the well-formed stream of these elements. The
  text after the last delimiter, a complete last element included, is not part of the
  result. When the parser rejects the repaired text too, the first parse failure is raised.
\<close>

theorem stream_to_dataframe_truncated_keeps_terminated:
  assumes ne: "es \<noteq> []"
    and el: "\<forall>e \<in> set es. \<not> contains [CHR '','', LF] e"
    and tl: "\<not> contains [CHR '','', LF] tail"
    and op: "\<not> contains [CHR ''['', LF] (concat (map (\<lambda>e. e @ [CHR '','', LF]) es) @ tail)"
    and cl: "\<not> contains [LF, CHR '']''] (concat (map (\<lambda>e. e @ [CHR '','', LF]) es) @ tail)"
    and ok: "status_code resp = 200"
    and body: "concat (body_chunks resp)
                 = [CHR ''['', LF] @ concat (map (\<lambda>e. e @ [CHR '','', LF]) es) @ tail"
    and fail: "read_json (''['' @ concat (map (\<lambda>e. e @ '','') es)) = Inl msg"
    and m1: "\<not> contains ''Unexpected end of file'' msg"
    and m2: "\<not> contains ''Empty data passed'' msg"
  shows "assemble (body_chunks resp) = ''['' @ concat (map (\<lambda>e. e @ '','') es)
       \<and> repair (''['' @ concat (map (\<lambda>e. e @ '','') es))
           = ''['' @ concat (map (\<lambda>e. e @ '','') (butlast es)) @ last es @ '']''
       \<and> stream_to_dataframe read_json resp
           = (case read_json (''['' @ concat (map (\<lambda>e. e @ '','') (butlast es)) @ last es @ '']'') of
                Inr df \<Rightarrow> Inr df
              | Inl m \<Rightarrow> Inl (ValueError msg))
       \<and> (status_code resp_w = 200
            \<and> concat (body_chunks resp_w)
                = [CHR ''['', LF] @ concat (map (\<lambda>e. e @ [CHR '','', LF]) (butlast es))
                    @ last es @ [LF, CHR '']'']
            \<and> \<not> contains [CHR ''['', LF]
                  (concat (map (\<lambda>e. e @ [CHR '','', LF]) (butlast es)) @ last es @ [LF, CHR '']''])
            \<and> \<not> contains [CHR '','', LF] (last es @ [LF, CHR '']''])
            \<and> strip (last es) \<noteq> []
            \<and> read_json (''['' @ concat (map (\<lambda>e. e @ '','') (butlast es)) @ last es @ '']'') = Inr df
            \<longrightarrow> stream_to_dataframe read_json resp = Inr df
                \<and> stream_to_dataframe read_json resp_w = Inr df)"
proof -
  let ?K = "concat (map (\<lambda>e. e @ '','') (butlast es)) @ last es"
  define J' where "J' = ''['' @ concat (map (\<lambda>e. e @ '','') es)"
  define J where "J = ''['' @ ?K @ '']''"
  have cc: "concat (map (\<lambda>e. e @ '','') es) = ?K @ '',''"
    using concat_snoc_last [OF ne, of "\<lambda>e. e @ '',''"] by simp
  have J': "J' = (''['' @ ?K) @ '',''" unfolding J'_def using cc by simp
  have a: "assemble (body_chunks resp) = J'"
    unfolding J'_def by (rule assemble_truncated [OF body el tl op cl])
  have r: "repair J' = J"
    unfolding J' repair_trailing_comma J_def by simp
  have st: "strip J' = J'"
    using strip_bracketed [of ?K] unfolding J' by simp
  have l: "last J' = CHR '',''" unfolding J' by (rule last_snoc)
  have n: "2 \<le> length J'" unfolding J' by simp
  have n1: "J' \<noteq> []" using n by auto
  have n2: "J' \<noteq> ''[''" using n by auto
  have n3: "J' \<noteq> ''[]''"
  proof
    assume e: "J' = ''[]''"
    have "last J' = last ''[]''" by (simp only: e)
    with l show False by simp
  qed
  have fail': "read_json J' = Inl msg" unfolding J'_def by (rule fail)
  have d': "stream_to_dataframe read_json resp
             = (case read_json J of Inr df \<Rightarrow> Inr df | Inl m \<Rightarrow> Inl (ValueError msg))"
    using ok fail' m1 m2 n1 n2 n3
    by (simp add: stream_to_dataframe_def a parse_or_repair_def r st split: sum.splits)
  have d: "stream_to_dataframe read_json resp
             = (case read_json (''['' @ ?K @ '']'') of Inr df \<Rightarrow> Inr df | Inl m \<Rightarrow> Inl (ValueError msg))"
    using d' unfolding J_def .
  have a0: "assemble (body_chunks resp) = ''['' @ concat (map (\<lambda>e. e @ '','') es)"
    using a unfolding J'_def .
  have r0: "repair (''['' @ concat (map (\<lambda>e. e @ '','') es)) = ''['' @ ?K @ '']''"
    using r unfolding J'_def J_def .
  have w: "stream_to_dataframe read_json resp = Inr df \<and> stream_to_dataframe read_json resp_w = Inr df"
    if okw: "status_code resp_w = 200"
      and bw: "concat (body_chunks resp_w)
                = [CHR ''['', LF] @ concat (map (\<lambda>e. e @ [CHR '','', LF]) (butlast es))
                    @ last es @ [LF, CHR '']'']"
      and opw: "\<not> contains [CHR ''['', LF]
                  (concat (map (\<lambda>e. e @ [CHR '','', LF]) (butlast es)) @ last es @ [LF, CHR '']''])"
      and dw: "\<not> contains [CHR '','', LF] (last es @ [LF, CHR '']''])"
      and sw: "strip (last es) \<noteq> []"
      and rd: "read_json (''['' @ ?K @ '']'') = Inr df"
  proof -
    have elw: "\<forall>e \<in> set (butlast es). \<not> contains [CHR '','', LF] e"
      using el by (meson in_set_butlastD)
    have "concat (map (\<lambda>e. e @ [CHR '','', LF]) es) @ tail
            = (concat (map (\<lambda>e. e @ [CHR '','', LF]) (butlast es)) @ last es) @ ([CHR '','', LF] @ tail)"
      using concat_snoc_last [OF ne, of "\<lambda>e. e @ [CHR '','', LF]"] by simp
    with cl have clw: "\<not> contains [LF, CHR '']'']
                          (concat (map (\<lambda>e. e @ [CHR '','', LF]) (butlast es)) @ last es)"
      using contains_prefix_free by metis
    have aw: "assemble (body_chunks resp_w) = J"
      unfolding J_def using assemble_wellformed [OF bw elw dw opw clw sw] by simp
    have rd': "read_json J = Inr df" unfolding J_def by (rule rd)
    have "stream_to_dataframe read_json resp_w = Inr df"
      using okw rd' by (simp add: stream_to_dataframe_def aw parse_or_repair_def)
    moreover have "stream_to_dataframe read_json resp = Inr df"
      using d' rd' by simp
    ultimately show ?thesis by simp
  qed
  show ?thesis using a0 r0 d w unfolding append_assoc by blast
qed

theorem stream_to_dataframe_truncated_keeps_terminated_witness:
  "stream_to_dataframe
       (\<lambda>s. if s = ''[{'' @ [DQ] @ ''a'' @ [DQ] @ '':1},{'' @ [DQ] @ ''a'' @ [DQ] @ '':2}]'' then Inr \<lparr>cols = [''a''], rws = [[CNum (Fin 1)], [CNum (Fin 2)]]\<rparr>
          else if s = ''[{'' @ [DQ] @ ''a'' @ [DQ] @ '':1}]'' then Inr \<lparr>cols = [''a''], rws = [[CNum (Fin 1)]]\<rparr>
          else Inl ''Expected object or value'')
       \<lparr>status_code = 200, body_text = [CHR ''['', LF] @ ''{'' @ [DQ] @ ''a'' @ [DQ] @ '':1}'' @ [CHR '','', LF] @ ''{'' @ [DQ] @ ''a'' @ [DQ] @ '':2}'',
          body_chunks = [[CHR ''['', LF] @ ''{'' @ [DQ] @ ''a'' @ [DQ] @ '':1}'' @ '','', [LF] @ ''{'' @ [DQ] @ ''a'' @ [DQ] @ '':2}'']\<rparr>
     = Inr \<lparr>cols = [''a''], rws = [[CNum (Fin 1)]]\<rparr>
   \<and> stream_to_dataframe
       (\<lambda>s. if s = ''[{'' @ [DQ] @ ''a'' @ [DQ] @ '':1},{'' @ [DQ] @ ''a'' @ [DQ] @ '':2}]'' then Inr \<lparr>cols = [''a''], rws = [[CNum (Fin 1)], [CNum (Fin 2)]]\<rparr>
          else if s = ''[{'' @ [DQ] @ ''a'' @ [DQ] @ '':1}]'' then Inr \<lparr>cols = [''a''], rws = [[CNum (Fin 1)]]\<rparr>
          else Inl ''Expected object or value'')
       \<lparr>status_code = 200, body_text = [CHR ''['', LF] @ ''{'' @ [DQ] @ ''a'' @ [DQ] @ '':1}'' @ [LF, CHR '']''],
          body_chunks = [[CHR ''['', LF] @ ''{'' @ [DQ] @ ''a'' @ [DQ] @ '':1}'', [LF, CHR '']'']]\<rparr>
     = Inr \<lparr>cols = [''a''], rws = [[CNum (Fin 1)]]\<rparr>"
proof -
  let ?rd = "(\<lambda>s. if s = ''[{'' @ [DQ] @ ''a'' @ [DQ] @ '':1},{'' @ [DQ] @ ''a'' @ [DQ] @ '':2}]'' then Inr \<lparr>cols = [''a''], rws = [[CNum (Fin 1)], [CNum (Fin 2)]]\<rparr>
          else if s = ''[{'' @ [DQ] @ ''a'' @ [DQ] @ '':1}]'' then Inr \<lparr>cols = [''a''], rws = [[CNum (Fin 1)]]\<rparr>
          else Inl ''Expected object or value'')"
  let ?tr = "\<lparr>status_code = 200, body_text = [CHR ''['', LF] @ ''{'' @ [DQ] @ ''a'' @ [DQ] @ '':1}'' @ [CHR '','', LF] @ ''{'' @ [DQ] @ ''a'' @ [DQ] @ '':2}'',
          body_chunks = [[CHR ''['', LF] @ ''{'' @ [DQ] @ ''a'' @ [DQ] @ '':1}'' @ '','', [LF] @ ''{'' @ [DQ] @ ''a'' @ [DQ] @ '':2}'']\<rparr>"
  let ?w = "\<lparr>status_code = 200, body_text = [CHR ''['', LF] @ ''{'' @ [DQ] @ ''a'' @ [DQ] @ '':1}'' @ [LF, CHR '']''],
          body_chunks = [[CHR ''['', LF] @ ''{'' @ [DQ] @ ''a'' @ [DQ] @ '':1}'', [LF, CHR '']'']]\<rparr>"
  let ?es = "[''{'' @ [DQ] @ ''a'' @ [DQ] @ '':1}'']"
  let ?tail = "''{'' @ [DQ] @ ''a'' @ [DQ] @ '':2}''"
  have ne: "?es \<noteq> []" by simp
  have el: "\<forall>e \<in> set ?es. \<not> contains [CHR '','', LF] e" by code_simp
  have tl: "\<not> contains [CHR '','', LF] ?tail" by code_simp
  have op: "\<not> contains [CHR ''['', LF] (concat (map (\<lambda>e. e @ [CHR '','', LF]) ?es) @ ?tail)"
    by code_simp
  have cl: "\<not> contains [LF, CHR '']''] (concat (map (\<lambda>e. e @ [CHR '','', LF]) ?es) @ ?tail)"
    by code_simp
  have ok: "status_code ?tr = 200" by simp
  have body: "concat (body_chunks ?tr)
                = [CHR ''['', LF] @ concat (map (\<lambda>e. e @ [CHR '','', LF]) ?es) @ ?tail"
    by simp
  have fail: "?rd (''['' @ concat (map (\<lambda>e. e @ '','') ?es)) = Inl ''Expected object or value''"
    by (simp add: DQ_def)
  have m1: "\<not> contains ''Unexpected end of file'' ''Expected object or value''" by code_simp
  have m2: "\<not> contains ''Empty data passed'' ''Expected object or value''" by code_simp
  have okw: "status_code ?w = 200" by simp
  have bw: "concat (body_chunks ?w)
                = [CHR ''['', LF] @ concat (map (\<lambda>e. e @ [CHR '','', LF]) (butlast ?es))
                    @ last ?es @ [LF, CHR '']'']"
    by simp
  have opw: "\<not> contains [CHR ''['', LF]
                  (concat (map (\<lambda>e. e @ [CHR '','', LF]) (butlast ?es)) @ last ?es @ [LF, CHR '']''])"
    by code_simp
  have dw: "\<not> contains [CHR '','', LF] (last ?es @ [LF, CHR '']''])" by code_simp
  have sw: "strip (last ?es) \<noteq> []" by code_simp
  have rd: "?rd (''['' @ concat (map (\<lambda>e. e @ '','') (butlast ?es)) @ last ?es @ '']'')
              = Inr \<lparr>cols = [''a''], rws = [[CNum (Fin 1)]]\<rparr>"
    by (simp add: DQ_def)
  note th = stream_to_dataframe_truncated_keeps_terminated
         [where es = ?es and tail = ?tail and resp = ?tr and read_json = ?rd
            and msg = "''Expected object or value''" and resp_w = ?w
            and df = "\<lparr>cols = [''a''], rws = [[CNum (Fin 1)]]\<rparr>"]
  from th [OF ne el tl op cl ok body fail m1 m2] okw bw opw dw sw rd
  show ?thesis by blast
qed

theorem stream_to_dataframe_truncated_counterexample:
  "stream_to_dataframe
       (\<lambda>s. if s = ''[{'' @ [DQ] @ ''a'' @ [DQ] @ '':1},{'' @ [DQ] @ ''a'' @ [DQ] @ '':2}]'' then Inr \<lparr>cols = [''a''], rws = [[CNum (Fin 1)], [CNum (Fin 2)]]\<rparr>
          else if s = ''[{'' @ [DQ] @ ''a'' @ [DQ] @ '':1}]'' then Inr \<lparr>cols = [''a''], rws = [[CNum (Fin 1)]]\<rparr>
          else Inl ''Expected object or value'')
       \<lparr>status_code = 200, body_text = [CHR ''['', LF] @ ''{'' @ [DQ] @ ''a'' @ [DQ] @ '':1}'' @ [CHR '','', LF] @ ''{'' @ [DQ] @ ''a'' @ [DQ] @ '':2}'',
          body_chunks = [[CHR ''['', LF] @ ''{'' @ [DQ] @ ''a'' @ [DQ] @ '':1}'' @ '','', [LF] @ ''{'' @ [DQ] @ ''a'' @ [DQ] @ '':2}'']\<rparr>
     = Inr \<lparr>cols = [''a''], rws = [[CNum (Fin 1)]]\<rparr>
   \<and> stream_to_dataframe
       (\<lambda>s. if s = ''[{'' @ [DQ] @ ''a'' @ [DQ] @ '':1},{'' @ [DQ] @ ''a'' @ [DQ] @ '':2}]'' then Inr \<lparr>cols = [''a''], rws = [[CNum (Fin 1)], [CNum (Fin 2)]]\<rparr>
          else if s = ''[{'' @ [DQ] @ ''a'' @ [DQ] @ '':1}]'' then Inr \<lparr>cols = [''a''], rws = [[CNum (Fin 1)]]\<rparr>
          else Inl ''Expected object or value'')
       \<lparr>status_code = 200, body_text = [CHR ''['', LF] @ ''{'' @ [DQ] @ ''a'' @ [DQ] @ '':1}'' @ [CHR '','', LF] @ ''{'' @ [DQ] @ ''a'' @ [DQ] @ '':2}'' @ [LF, CHR '']''],
          body_chunks = [[CHR ''['', LF] @ ''{'' @ [DQ] @ ''a'' @ [DQ] @ '':1}'' @ [CHR '','', LF] @ ''{'' @ [DQ] @ ''a'' @ [DQ] @ '':2}'' @ [LF, CHR '']'']]\<rparr>
     = Inr \<lparr>cols = [''a''], rws = [[CNum (Fin 1)], [CNum (Fin 2)]]\<rparr>
   \<and> \<lparr>cols = [''a''], rws = [[CNum (Fin 1)]]\<rparr> \<noteq> \<lparr>cols = [''a''], rws = [[CNum (Fin 1)], [CNum (Fin 2)]]\<rparr>"
proof -
  have a: "stream_to_dataframe
       (\<lambda>s. if s = ''[{'' @ [DQ] @ ''a'' @ [DQ] @ '':1},{'' @ [DQ] @ ''a'' @ [DQ] @ '':2}]'' then Inr \<lparr>cols = [''a''], rws = [[CNum (Fin 1)], [CNum (Fin 2)]]\<rparr>
          else if s = ''[{'' @ [DQ] @ ''a'' @ [DQ] @ '':1}]'' then Inr \<lparr>cols = [''a''], rws = [[CNum (Fin 1)]]\<rparr>
          else Inl ''Expected object or value'')
       \<lparr>status_code = 200, body_text = [CHR ''['', LF] @ ''{'' @ [DQ] @ ''a'' @ [DQ] @ '':1}'' @ [CHR '','', LF] @ ''{'' @ [DQ] @ ''a'' @ [DQ] @ '':2}'',
          body_chunks = [[CHR ''['', LF] @ ''{'' @ [DQ] @ ''a'' @ [DQ] @ '':1}'' @ '','', [LF] @ ''{'' @ [DQ] @ ''a'' @ [DQ] @ '':2}'']\<rparr>
     = Inr \<lparr>cols = [''a''], rws = [[CNum (Fin 1)]]\<rparr>"
    by code_simp
  have b: "stream_to_dataframe
       (\<lambda>s. if s = ''[{'' @ [DQ] @ ''a'' @ [DQ] @ '':1},{'' @ [DQ] @ ''a'' @ [DQ] @ '':2}]'' then Inr \<lparr>cols = [''a''], rws = [[CNum (Fin 1)], [CNum (Fin 2)]]\<rparr>
          else if s = ''[{'' @ [DQ] @ ''a'' @ [DQ] @ '':1}]'' then Inr \<lparr>cols = [''a''], rws = [[CNum (Fin 1)]]\<rparr>
          else Inl ''Expected object or value'')
       \<lparr>status_code = 200, body_text = [CHR ''['', LF] @ ''{'' @ [DQ] @ ''a'' @ [DQ] @ '':1}'' @ [CHR '','', LF] @ ''{'' @ [DQ] @ ''a'' @ [DQ] @ '':2}'' @ [LF, CHR '']''],
          body_chunks = [[CHR ''['', LF] @ ''{'' @ [DQ] @ ''a'' @ [DQ] @ '':1}'' @ [CHR '','', LF] @ ''{'' @ [DQ] @ ''a'' @ [DQ] @ '':2}'' @ [LF, CHR '']'']]\<rparr>
     = Inr \<lparr>cols = [''a''], rws = [[CNum (Fin 1)], [CNum (Fin 2)]]\<rparr>"
    by code_simp
  have c: "\<lparr>cols = [''a''], rws = [[CNum (Fin 1)]]\<rparr> \<noteq> \<lparr>cols = [''a''], rws = [[CNum (Fin 1)], [CNum (Fin 2)]]\<rparr>" by simp
  from a b c show ?thesis by (intro conjI)
qed

section \<open>Properties of the dataset cache\<close>






lemma get_shots_fired_data_fresh:
  assumes "files s (path_join (cache_dir cfg) ''df_shots.parquet'') = Some (ms, cs)"
    and "files s (path_join (cache_dir cfg) ''df_hom_shot_matched.parquet'') = Some (mm, cm)"
    and "now_s - ms \<le> 30 * 60" and "now_m - mm \<le> 30 * 60"
  shows "get_shots_fired_data rd num dt net cfg False now_s now_m wnow_s wnow_m s = (Inr (cs, cm), s)"
  using assms by (simp add: get_shots_fired_data_def Let_def cache_stale_def read_parquet_def)

lemma get_shots_fired_data_fetch:
  assumes first: "get_shots_fired_data rd num dt net cfg force now_s now_m wnow_s wnow_m s0 = (Inr (df, dfm), s1)"
    and stale: "force \<or> cache_stale (files s0) now_s (path_join (cache_dir cfg) ''df_shots.parquet'') 30
                  \<or> cache_stale (files s0) now_m (path_join (cache_dir cfg) ''df_hom_shot_matched.parquet'') 30"
  shows "fetched s1 = fetched s0 @ [url_shots cfg, url_matched cfg]
       \<and> files s1 = ((files s0)(path_join (cache_dir cfg) ''df_shots.parquet'' \<mapsto> (wnow_s, df)))
                       (path_join (cache_dir cfg) ''df_hom_shot_matched.parquet'' \<mapsto> (wnow_m, dfm))
       \<and> (\<exists>raw. stream_to_dataframe rd (net (url_shots cfg)) = Inr raw \<and> load_shots num dt raw = Inr df)
       \<and> (\<exists>raw. stream_to_dataframe rd (net (url_matched cfg)) = Inr raw \<and> load_matched num dt raw = Inr dfm)"
proof -
  let ?ps = "path_join (cache_dir cfg) ''df_shots.parquet''"
  let ?pm = "path_join (cache_dir cfg) ''df_hom_shot_matched.parquet''"
  from stale have br: "\<not> (\<not> force \<and> \<not> cache_stale (files s0) now_s ?ps 30
                            \<and> \<not> cache_stale (files s0) now_m ?pm 30)" by blast
  obtain raw where raw: "stream_to_dataframe rd (net (url_shots cfg)) = Inr raw"
    using first br
    by (cases "stream_to_dataframe rd (net (url_shots cfg))")
       (simp_all add: get_shots_fired_data_def Let_def fetch_table_def)
  obtain d where d: "load_shots num dt raw = Inr d"
    using first br raw
    by (cases "load_shots num dt raw")
       (simp_all add: get_shots_fired_data_def Let_def fetch_table_def)
  obtain rawm where rawm: "stream_to_dataframe rd (net (url_matched cfg)) = Inr rawm"
    using first br raw d
    by (cases "stream_to_dataframe rd (net (url_matched cfg))")
       (simp_all add: get_shots_fired_data_def Let_def fetch_table_def)
  obtain dm where dm: "load_matched num dt rawm = Inr dm"
    using first br raw d rawm
    by (cases "load_matched num dt rawm")
       (simp_all add: get_shots_fired_data_def Let_def fetch_table_def)
  from first br raw d rawm dm
  have "df = d \<and> dfm = dm
        \<and> s1 = s0\<lparr>fetched := fetched s0 @ [url_shots cfg, url_matched cfg],
                   files := ((files s0)(?ps \<mapsto> (wnow_s, d)))(?pm \<mapsto> (wnow_m, dm))\<rparr>"
    by (auto simp: get_shots_fired_data_def Let_def fetch_table_def)
  with raw d rawm dm show ?thesis by auto
qed

text \<open>
  Claim C7. The loader of the shots and the matched homicides takes one decision for both
  datasets. Either the call is not forced and both cache files are fresh: then both tables
  are read from the cache and nothing is requested or written. Or the call is forced or one
  of the two files is stale: then a call that returns has requested both datasets, in this
  order, returns the two tables decoded from these two responses and has rewritten both
  cache files; a call that raises has left both cache files as they were.
\<close>

theorem get_shots_fired_data_both_or_neither:
  fixes rd :: "string \<Rightarrow> string + table" and num :: "cell \<Rightarrow> pyfloat" and dt :: "cell \<Rightarrow> ts option"
    and net :: "string \<Rightarrow> response"
  assumes call: "get_shots_fired_data rd num dt net cfg force now_s now_m wnow_s wnow_m s = (r, s')"
  shows "(\<not> force
            \<and> \<not> cache_stale (files s) now_s (path_join (cache_dir cfg) ''df_shots.parquet'') 30
            \<and> \<not> cache_stale (files s) now_m (path_join (cache_dir cfg) ''df_hom_shot_matched.parquet'') 30
            \<and> s' = s
            \<and> (\<exists>ms mm cs cm. r = Inr (cs, cm)
                 \<and> files s (path_join (cache_dir cfg) ''df_shots.parquet'') = Some (ms, cs)
                 \<and> files s (path_join (cache_dir cfg) ''df_hom_shot_matched.parquet'') = Some (mm, cm)))
       \<or> ((force
             \<or> cache_stale (files s) now_s (path_join (cache_dir cfg) ''df_shots.parquet'') 30
             \<or> cache_stale (files s) now_m (path_join (cache_dir cfg) ''df_hom_shot_matched.parquet'') 30)
            \<and> (case r of
                  Inl e \<Rightarrow> files s' = files s
                | Inr (df, dfm) \<Rightarrow>
                    fetched s' = fetched s @ [url_shots cfg, url_matched cfg]
                    \<and> (\<exists>raw. stream_to_dataframe rd (net (url_shots cfg)) = Inr raw
                          \<and> load_shots num dt raw = Inr df)
                    \<and> (\<exists>raw. stream_to_dataframe rd (net (url_matched cfg)) = Inr raw
                          \<and> load_matched num dt raw = Inr dfm)
                    \<and> files s' = ((files s)(path_join (cache_dir cfg) ''df_shots.parquet'' \<mapsto> (wnow_s, df)))
                                    (path_join (cache_dir cfg) ''df_hom_shot_matched.parquet'' \<mapsto> (wnow_m, dfm))))"
proof -
  let ?ps = "path_join (cache_dir cfg) ''df_shots.parquet''"
  let ?pm = "path_join (cache_dir cfg) ''df_hom_shot_matched.parquet''"
  let ?fresh = "\<not> force \<and> \<not> cache_stale (files s) now_s ?ps 30 \<and> \<not> cache_stale (files s) now_m ?pm 30"
  show ?thesis
  proof (cases ?fresh)
    case True
    then obtain ms cs where gs: "files s ?ps = Some (ms, cs)" and as: "now_s - ms \<le> 30 * 60"
      by (auto simp: cache_stale_def split: option.splits)
    from True obtain mm cm where gm: "files s ?pm = Some (mm, cm)" and am: "now_m - mm \<le> 30 * 60"
      by (auto simp: cache_stale_def split: option.splits)
    from True have nf: "force = False" by simp
    from get_shots_fired_data_fresh [OF gs gm as am, of rd num dt net wnow_s wnow_m] call
    have "r = Inr (cs, cm)" and "s' = s" unfolding nf by simp_all
    with True gs gm show ?thesis by blast
  next
    case False
    then have stale: "force \<or> cache_stale (files s) now_s ?ps 30 \<or> cache_stale (files s) now_m ?pm 30"
      by blast
    have "case r of
            Inl e \<Rightarrow> files s' = files s
          | Inr (df, dfm) \<Rightarrow>
              fetched s' = fetched s @ [url_shots cfg, url_matched cfg]
              \<and> (\<exists>raw. stream_to_dataframe rd (net (url_shots cfg)) = Inr raw
                    \<and> load_shots num dt raw = Inr df)
              \<and> (\<exists>raw. stream_to_dataframe rd (net (url_matched cfg)) = Inr raw
                    \<and> load_matched num dt raw = Inr dfm)
              \<and> files s' = ((files s)(?ps \<mapsto> (wnow_s, df)))(?pm \<mapsto> (wnow_m, dfm))"
    proof (cases r)
      case (Inl e)
      with call False have "files s' = files s"
        by (auto simp: get_shots_fired_data_def Let_def fetch_table_def
                 split: sum.splits prod.splits if_splits)
      with Inl show ?thesis by simp
    next
      case (Inr p)
      obtain df dfm where p: "p = (df, dfm)" by (cases p)
      from call have "get_shots_fired_data rd num dt net cfg force now_s now_m wnow_s wnow_m s
                        = (Inr (df, dfm), s')"
        unfolding Inr p .
      from get_shots_fired_data_fetch [OF this stale] show ?thesis
        unfolding Inr p by simp
    qed
    with stale show ?thesis by blast
  qed
qed


theorem get_shots_fired_data_both_or_neither_witness:
  "get_shots_fired_data
     (\<lambda>s. if s = ''[S]'' then Inr \<lparr>cols = [''latitude'', ''longitude'', ''date'', ''ballistics_evidence''],
              rws = [[CNum (Fin 42), CNum (Fin (- 71)), CTime (TS 2024 12 5 0), CNum (Fin 1)]]\<rparr>
           else if s = ''[M]'' then Inr \<lparr>cols = [''latitude'', ''longitude'', ''date''],
              rws = [[CNum (Fin 42), CNum (Fin (- 71)), CTime (TS 2024 11 3 0)]]\<rparr>
           else Inl ''Expected object or value'')
     (\<lambda>c. case c of CNum f \<Rightarrow> f | _ \<Rightarrow> NaN)
     (\<lambda>c. case c of CTime t \<Rightarrow> Some t | _ \<Rightarrow> None)
     (\<lambda>u. if contains ''homicides'' u
           then \<lparr>status_code = 200, body_text = [], body_chunks = [[CHR ''['', LF], ''M'', [LF, CHR '']'']]\<rparr>
           else \<lparr>status_code = 200, body_text = [], body_chunks = [[CHR ''['', LF], ''S'', [LF, CHR '']'']]\<rparr>)
     \<lparr>cache_dir = ''./cache'', api_base_url = ''http://127.0.0.1:8888''\<rparr>
     False 1000 1001 1010 1011 \<lparr>files = Map.empty, fetched = []\<rparr>
   = (Inr (\<lparr>cols = [''latitude'', ''longitude'', ''date'', ''ballistics_evidence'', ''month'', ''day''],
            rws = [[CNum (Fin 42), CNum (Fin (- 71)), CTime (TS 2024 12 5 0), CNum (Fin 1),
                    CTime (TS 2024 12 1 0), CDay 2024 12 5]]\<rparr>,
           \<lparr>cols = [''latitude'', ''longitude'', ''date'', ''month''],
            rws = [[CNum (Fin 42), CNum (Fin (- 71)), CTime (TS 2024 11 3 0), CTime (TS 2024 11 1 0)]]\<rparr>),
      \<lparr>files = [path_join ''./cache'' ''df_shots.parquet'' \<mapsto> (1010,
           \<lparr>cols = [''latitude'', ''longitude'', ''date'', ''ballistics_evidence'', ''month'', ''day''],
            rws = [[CNum (Fin 42), CNum (Fin (- 71)), CTime (TS 2024 12 5 0), CNum (Fin 1),
                    CTime (TS 2024 12 1 0), CDay 2024 12 5]]\<rparr>),
          path_join ''./cache'' ''df_hom_shot_matched.parquet'' \<mapsto> (1011,
           \<lparr>cols = [''latitude'', ''longitude'', ''date'', ''month''],
            rws = [[CNum (Fin 42), CNum (Fin (- 71)), CTime (TS 2024 11 3 0), CTime (TS 2024 11 1 0)]]\<rparr>)],
       fetched = [url_shots \<lparr>cache_dir = ''./cache'', api_base_url = ''http://127.0.0.1:8888''\<rparr>,
                  url_matched \<lparr>cache_dir = ''./cache'', api_base_url = ''http://127.0.0.1:8888''\<rparr>]\<rparr>)
   \<and> (\<exists>raw. stream_to_dataframe
          (\<lambda>s. if s = ''[S]'' then Inr \<lparr>cols = [''latitude'', ''longitude'', ''date'', ''ballistics_evidence''],
              rws = [[CNum (Fin 42), CNum (Fin (- 71)), CTime (TS 2024 12 5 0), CNum (Fin 1)]]\<rparr>
           else if s = ''[M]'' then Inr \<lparr>cols = [''latitude'', ''longitude'', ''date''],
              rws = [[CNum (Fin 42), CNum (Fin (- 71)), CTime (TS 2024 11 3 0)]]\<rparr>
           else Inl ''Expected object or value'')
          \<lparr>status_code = 200, body_text = [], body_chunks = [[CHR ''['', LF], ''M'', [LF, CHR '']'']]\<rparr>
          = Inr raw
        \<and> load_matched (\<lambda>c. case c of CNum f \<Rightarrow> f | _ \<Rightarrow> NaN)
             (\<lambda>c. case c of CTime t \<Rightarrow> Some t | _ \<Rightarrow> None) raw
          = Inr \<lparr>cols = [''latitude'', ''longitude'', ''date'', ''month''],
            rws = [[CNum (Fin 42), CNum (Fin (- 71)), CTime (TS 2024 11 3 0), CTime (TS 2024 11 1 0)]]\<rparr>)"
proof -
  let ?Ts = "\<lparr>cols = [''latitude'', ''longitude'', ''date'', ''ballistics_evidence''],
              rws = [[CNum (Fin 42), CNum (Fin (- 71)), CTime (TS 2024 12 5 0), CNum (Fin 1)]]\<rparr>"
  let ?Tm = "\<lparr>cols = [''latitude'', ''longitude'', ''date''],
              rws = [[CNum (Fin 42), CNum (Fin (- 71)), CTime (TS 2024 11 3 0)]]\<rparr>"
  let ?Ds = "\<lparr>cols = [''latitude'', ''longitude'', ''date'', ''ballistics_evidence'', ''month'', ''day''],
            rws = [[CNum (Fin 42), CNum (Fin (- 71)), CTime (TS 2024 12 5 0), CNum (Fin 1),
                    CTime (TS 2024 12 1 0), CDay 2024 12 5]]\<rparr>"
  let ?Dm = "\<lparr>cols = [''latitude'', ''longitude'', ''date'', ''month''],
            rws = [[CNum (Fin 42), CNum (Fin (- 71)), CTime (TS 2024 11 3 0), CTime (TS 2024 11 1 0)]]\<rparr>"
  let ?rd = "\<lambda>s. if s = ''[S]'' then Inr ?Ts else if s = ''[M]'' then Inr ?Tm
                 else Inl ''Expected object or value''"
  let ?N = "\<lambda>c. case c of CNum f \<Rightarrow> f | _ \<Rightarrow> NaN"
  let ?dt = "\<lambda>c. case c of CTime t \<Rightarrow> Some t | _ \<Rightarrow> None"
  let ?Rs = "\<lparr>status_code = 200, body_text = [], body_chunks = [[CHR ''['', LF], ''S'', [LF, CHR '']'']]\<rparr>"
  let ?Rm = "\<lparr>status_code = 200, body_text = [], body_chunks = [[CHR ''['', LF], ''M'', [LF, CHR '']'']]\<rparr>"
  let ?net = "\<lambda>u. if contains ''homicides'' u then ?Rm else ?Rs"
  let ?C = "\<lparr>cache_dir = ''./cache'', api_base_url = ''http://127.0.0.1:8888''\<rparr>"
  let ?s0 = "\<lparr>files = Map.empty, fetched = []\<rparr>"
  let ?s1 = "\<lparr>files = [path_join ''./cache'' ''df_shots.parquet'' \<mapsto> (1010, ?Ds),
                       path_join ''./cache'' ''df_hom_shot_matched.parquet'' \<mapsto> (1011, ?Dm)],
              fetched = [url_shots ?C, url_matched ?C]\<rparr>"
  have us: "\<not> contains ''homicides'' (url_shots ?C)"
    by code_simp
  have um: "contains ''homicides'' (url_matched ?C)"
    by code_simp
  have asms: "assemble [[CHR ''['', LF], ''S'', [LF, CHR '']'']] = ''[S]''"
    by code_simp
  have asmm: "assemble [[CHR ''['', LF], ''M'', [LF, CHR '']'']] = ''[M]''"
    by code_simp
  have sts: "stream_to_dataframe ?rd ?Rs = Inr ?Ts"
    by (simp add: stream_to_dataframe_def asms parse_or_repair_def)
  have stm: "stream_to_dataframe ?rd ?Rm = Inr ?Tm"
    by (simp add: stream_to_dataframe_def asmm parse_or_repair_def)
  have lds: "load_shots ?N ?dt ?Ts = Inr ?Ds"
    by (simp add: load_shots_def process_dataframe_def process_location_def process_date_def
          assign_def row_assign_def cell_at_def rget_def in_box_def flt_at_def date_cell_def
          dropna_def Let_def)
  have ldm: "load_matched ?N ?dt ?Tm = Inr ?Dm"
    by (simp add: load_matched_def process_dataframe_def process_location_def process_date_def
          assign_def row_assign_def cell_at_def rget_def in_box_def flt_at_def date_cell_def
          dropna_def Let_def)
  have first: "get_shots_fired_data ?rd ?N ?dt ?net ?C False 1000 1001 1010 1011 ?s0
                 = (Inr (?Ds, ?Dm), ?s1)"
    by (simp add: get_shots_fired_data_def Let_def cache_stale_def fetch_table_def us um sts stm lds ldm)
  have stale: "cache_stale (files ?s0) 1000 (path_join (cache_dir ?C) ''df_shots.parquet'') 30"
    by (simp add: cache_stale_def)
  from get_shots_fired_data_both_or_neither [OF first] stale
  have "\<exists>raw. stream_to_dataframe ?rd (?net (url_matched ?C)) = Inr raw
          \<and> load_matched ?N ?dt raw = Inr ?Dm"
    by simp
  then have "\<exists>raw. stream_to_dataframe ?rd ?Rm = Inr raw \<and> load_matched ?N ?dt raw = Inr ?Dm"
    using um by simp
  with first show ?thesis by blast
qed
section \<open>Properties of the batch resolve\<close>

lemma concat_chunks:
  "concat (map (\<lambda>k. take s (drop (k * s) xs)) [0 ..< m]) = take (m * s) xs"
proof (induction m)
  case 0
  then show ?case by simp
next
  case (Suc m)
  have "take (m * s + s) xs = take (m * s) xs @ take s (drop (m * s) xs)"
    by (rule take_add)
  with Suc show ?case by (simp add: add.commute)
qed

lemma batches_eq:
  "map (\<lambda>i. take BATCH_SIZE (drop i xs)) (py_range n BATCH_SIZE)
     = map (\<lambda>k. take 50 (drop (k * 50) xs)) [0 ..< (n + 49) div 50]"
  by (simp add: py_range_def BATCH_SIZE_def comp_def add.commute)

lemma batches_cover:
  "concat (map (\<lambda>i. take BATCH_SIZE (drop i xs)) (py_range (length xs) BATCH_SIZE)) = xs"
proof -
  define m where "m = (length xs + 49) div 50"
  have "length xs \<le> m * 50" unfolding m_def by arith
  then have "take (m * 50) xs = xs" by simp
  with concat_chunks [of 50 xs m] show ?thesis
    unfolding batches_eq m_def by simp
qed

lemma batches_sizes:
  assumes "b \<in> set (map (\<lambda>i. take BATCH_SIZE (drop i xs)) (py_range (length xs) BATCH_SIZE))"
  shows "b \<noteq> [] \<and> length b \<le> 50"
proof -
  define m where "m = (length xs + 49) div 50"
  from assms have "b \<in> set (map (\<lambda>k. take 50 (drop (k * 50) xs)) [0 ..< m])"
    unfolding batches_eq m_def .
  then obtain k where k: "k < m" and b: "b = take 50 (drop (k * 50) xs)"
    by auto
  from k have "k * 50 < length xs" unfolding m_def by arith
  with b show ?thesis by auto
qed

lemma butlast_upt0: "butlast [0 ..< m] = [0 ..< m - 1]"
  by (cases m) simp_all

lemma batches_full:
  assumes "b \<in> set (butlast (map (\<lambda>i. take BATCH_SIZE (drop i xs)) (py_range (length xs) BATCH_SIZE)))"
  shows "length b = 50"
proof -
  define m where "m = (length xs + 49) div 50"
  have "butlast (map (\<lambda>k. take 50 (drop (k * 50) xs)) [0 ..< m])
          = map (\<lambda>k. take 50 (drop (k * 50) xs)) [0 ..< m - 1]"
    by (simp add: map_butlast [symmetric] butlast_upt0)
  with assms have "b \<in> set (map (\<lambda>k. take 50 (drop (k * 50) xs)) [0 ..< m - 1])"
    unfolding batches_eq m_def by simp
  then obtain k where k: "k < m - 1" and b: "b = take 50 (drop (k * 50) xs)"
    by auto
  from k have "k * 50 + 50 \<le> length xs" unfolding m_def by arith
  with b show ?thesis by simp
qed

lemma batches_number:
  "length (map (\<lambda>i. take BATCH_SIZE (drop i xs)) (py_range (length xs) BATCH_SIZE)) = (length xs + 49) div 50"
  unfolding batches_eq by simp

lemma fetch_batches_acc:
  "fetch_batches rd net cfg ids js st =
     (fst st @ concat (map (\<lambda>i. batch_tables rd net cfg (take BATCH_SIZE (drop i ids))) js),
      snd st @ map (\<lambda>i. url_summary cfg (join '','' (take BATCH_SIZE (drop i ids)))) js)"
proof (induction js arbitrary: st)
  case Nil
  then show ?case by simp
next
  case (Cons i js)
  show ?case
  proof (cases "stream_to_dataframe rd (net (url_summary cfg (join '','' (take BATCH_SIZE (drop i ids)))))")
    case (Inl e)
    then show ?thesis by (simp add: Cons.IH batch_tables_def Let_def)
  next
    case (Inr df)
    then show ?thesis by (simp add: Cons.IH batch_tables_def Let_def)
  qed
qed


lemma set_insert_sorted: "set (insert_sorted le x ys) = insert x (set ys)"
  by (induction ys) auto

lemma distinct_insert_sorted:
  "x \<notin> set ys \<Longrightarrow> distinct ys \<Longrightarrow> distinct (insert_sorted le x ys)"
  by (induction ys) (auto simp: set_insert_sorted)

lemma sort_by_Cons: "sort_by le (x # xs) = insert_sorted le x (sort_by le xs)"
  by (simp add: sort_by_def)

lemma set_sort_by: "set (sort_by le xs) = set xs"
  by (induction xs) (simp_all add: sort_by_Cons set_insert_sorted, simp add: sort_by_def)

lemma distinct_sort_by: "distinct xs \<Longrightarrow> distinct (sort_by le xs)"
proof (induction xs)
  case Nil
  then show ?case by (simp add: sort_by_def)
next
  case (Cons x xs)
  then show ?case
    by (simp add: sort_by_Cons distinct_insert_sorted set_sort_by)
qed

lemma unique_acc:
  "distinct acc \<Longrightarrow>
     distinct (foldl (\<lambda>acc x. if x \<in> set acc then acc else acc @ [x]) acc xs)
     \<and> set (foldl (\<lambda>acc x. if x \<in> set acc then acc else acc @ [x]) acc xs) = set acc \<union> set xs"
proof (induction xs arbitrary: acc)
  case Nil
  then show ?case by simp
next
  case (Cons x xs)
  show ?case
  proof (cases "x \<in> set acc")
    case True
    with Cons.IH [OF Cons.prems] show ?thesis by auto
  next
    case False
    with Cons.prems have "distinct (acc @ [x])" by simp
    from Cons.IH [OF this] False show ?thesis by auto
  qed
qed

lemma distinct_unique: "distinct (unique xs)"
  using unique_acc [of "[]" xs] by (simp add: unique_def)

lemma set_unique: "set (unique xs) = set xs"
  using unique_acc [of "[]" xs] by (simp add: unique_def)

lemma finite_or_null_numeric: "finite_or_null c \<Longrightarrow> numeric c"
  by (erule finite_or_null.elims) simp_all

lemma foldl_flt_add_finite:
  "list_all finite_or_null vs \<Longrightarrow>
     foldl flt_add (Fin a) (nums vs) = Fin (a + sum_list (map finite_total vs))"
proof (induction vs arbitrary: a)
  case Nil
  then show ?case by simp
next
  case (Cons v vs)
  from Cons.prems have v: "finite_or_null v" and rest: "list_all finite_or_null vs" by simp_all
  from v have "foldl flt_add (Fin a) (nums (v # vs))
                  = foldl flt_add (Fin (a + finite_total v)) (nums vs)"
    by (cases v rule: finite_or_null.cases) simp_all
  with Cons.IH [OF rest, of "a + finite_total v"] show ?case
    by (simp add: add.assoc)
qed

lemma group_sum_finite:
  assumes "list_all finite_or_null vs"
  shows "group_sum osum vs = Inr (CNum (Fin (sum_list (map finite_total vs))))"
proof -
  from assms have "list_all numeric vs"
    by (induction vs) (auto dest: finite_or_null_numeric)
  with foldl_flt_add_finite [OF assms, of 0] show ?thesis
    by (simp add: group_sum_def)
qed

lemma collect_all:
  "\<forall>k \<in> set ks. f k = Inr (g k) \<Longrightarrow> collect (map f ks) = Inr (map g ks)"
  by (induction ks) simp_all


lemma groupby_sum_totals:
  assumes fin: "list_all finite_or_null (column df ''total'')"
  shows "\<exists>keys. groupby_sum le osum ''reported_issue'' ''total'' df
                  = Inr \<lparr>cols = [''reported_issue'', ''total''],
                         rws = map (\<lambda>k. [k, CNum (Fin (label_total df k))]) keys\<rparr>
            \<and> distinct keys
            \<and> set keys = {k \<in> set (column df ''reported_issue''). \<not> is_null k}"
proof -
  define keys where "keys = sort_by le (unique (filter (\<lambda>k. \<not> is_null k)
                                    (map (\<lambda>r. cell_at (cols df) r ''reported_issue'') (rws df))))"
  define f where "f = (\<lambda>k. group_sum osum
                               (map (\<lambda>r. cell_at (cols df) r ''total'')
                                    (filter (\<lambda>r. cell_at (cols df) r ''reported_issue'' = k) (rws df))))"
  define g where "g = (\<lambda>k. CNum (Fin (label_total df k)))"
  have each: "f k = Inr (g k)" for k
  proof -
    from fin have "list_all finite_or_null
             (map (\<lambda>r. cell_at (cols df) r ''total'')
                  (filter (\<lambda>r. cell_at (cols df) r ''reported_issue'' = k) (rws df)))"
      by (simp add: column_def list_all_iff)
    from group_sum_finite [OF this, of osum] show ?thesis
      by (simp add: f_def g_def label_total_def comp_def)
  qed
  then have c: "collect (map f keys) = Inr (map g keys)"
    by (intro collect_all) simp
  have z: "map (\<lambda>ks. [fst ks, snd ks]) (zip keys (map g keys)) = map (\<lambda>k. [k, g k]) keys"
    by (induction keys) simp_all
  have res: "groupby_sum le osum ''reported_issue'' ''total'' df
          = Inr \<lparr>cols = [''reported_issue'', ''total''], rws = map (\<lambda>k. [k, g k]) keys\<rparr>"
    using c z unfolding groupby_sum_def Let_def keys_def [symmetric] f_def [symmetric] by simp
  have d: "distinct keys"
    unfolding keys_def by (intro distinct_sort_by distinct_unique)
  have s: "set keys = {k \<in> set (column df ''reported_issue''). \<not> is_null k}"
    unfolding keys_def by (auto simp: set_sort_by set_unique column_def)
  from res d s show ?thesis unfolding g_def by blast
qed

lemma rget_absent: "c \<notin> set cs \<Longrightarrow> rget cs r c = None"
proof -
  assume "c \<notin> set cs"
  then have "c \<notin> fst ` set (zip cs r)" by (auto dest: set_zip_leftD)
  then show ?thesis by (simp add: rget_def map_of_eq_None_iff)
qed

lemma pd_concat_cols: "set (cols (pd_concat dfs)) = (\<Union>df \<in> set dfs. set (cols df))"
  by (simp add: pd_concat_def Let_def set_unique)

lemma pd_concat_rows:
  "rws (pd_concat dfs)
     = concat (map (\<lambda>df. map (\<lambda>r. map (cell_at (cols df) r) (cols (pd_concat dfs))) (rws df)) dfs)"
  by (simp add: pd_concat_def Let_def)

lemma pd_concat_cell:
  assumes "df \<in> set dfs"
  shows "cell_at (cols (pd_concat dfs)) (map (cell_at (cols df) r) (cols (pd_concat dfs))) c
           = cell_at (cols df) r c"
proof (cases "c \<in> set (cols (pd_concat dfs))")
  case True
  then show ?thesis by (simp add: cell_at_def rget_def map_of_zip_map)
next
  case False
  with assms have "c \<notin> set (cols df)" by (auto simp: pd_concat_cols)
  from rget_absent [OF this] rget_absent [OF False] show ?thesis
    by (simp add: cell_at_def)
qed


lemma split_on_free: "sep \<notin> set x \<Longrightarrow> split_on sep x = [x]"
  by (induction x) auto

lemma split_on_append:
  "sep \<notin> set x \<Longrightarrow> split_on sep (x @ sep # rest) = x # split_on sep rest"
  by (induction x) auto

lemma split_join:
  "xs \<noteq> [] \<Longrightarrow> \<forall>x \<in> set xs. sep \<notin> set x \<Longrightarrow> split_on sep (join [sep] xs) = xs"
proof (induction "[sep]" xs rule: join.induct)
  case 1
  then show ?case by simp
next
  case (2 x)
  then show ?case by (simp add: split_on_free)
next
  case (3 x y ys)
  then show ?case by (simp add: split_on_append)
qed

lemma join_nonempty: "join [sep] (x # y # ys) \<noteq> []"
  by simp

lemma py_range_120: "py_range 120 BATCH_SIZE = [0, 50, 100]"
  by code_simp

lemma get_select_requests:
  assumes "event_ids \<noteq> []"
  shows "fst (snd (get_select_311_data rd net to_csv le osum cfg event_ids event_date))
           = map (\<lambda>i. url_summary cfg (join '','' (take BATCH_SIZE (drop i (split_on (CHR '','') event_ids)))))
                 (py_range (length (split_on (CHR '','') event_ids)) BATCH_SIZE)"
  using assms
  by (simp add: get_select_311_data_def Let_def fetch_batches_acc split: sum.splits)

lemma compute_requests:
  assumes "event_ids \<noteq> []"
  shows "fst (snd (compute_area_category_counts rd net to_csv read_csv mk_dict le osum cfg event_ids date_str))
           = fst (snd (get_select_311_data rd net to_csv le osum cfg (join '','' event_ids) []))"
  using assms
  by (simp add: compute_area_category_counts_def split: prod.splits sum.splits)

lemma label_value_cols_cases:
  "label_value_cols cs =
     (if ''reported_issue'' \<in> set cs \<and> ''total'' \<in> set cs then Inr (''reported_issue'', ''total'')
      else (case cs of c1 # c2 # rest \<Rightarrow> Inr (c1, c2)
                     | _ \<Rightarrow> Inl (ValueError ''not enough values to unpack'')))"
proof (cases cs)
  case Nil
  then show ?thesis by (simp add: label_value_cols_def)
next
  case (Cons c1 cs1)
  then show ?thesis by (cases cs1) (simp_all add: label_value_cols_def)
qed

text \<open>
  Claim C5. The batch resolve splits the id string at the commas and requests the ids
  fifty at a time: the batches are the consecutive runs of 50 ids, the last one holding
  the 1 to 50 ids that remain, and one request is sent per batch, in order, whether or not
  earlier batches failed; 120 ids without a comma give three requests of 50, 50 and 20
  ids. A batch whose request or decoding raises adds nothing; the tables of the other
  batches are concatenated, every row keeping its cells. With no surviving batch the
  result is the empty text. When the concatenation has the columns \<open>reported_issue\<close> and
  \<open>total\<close> (the totals being numbers or null), the result is the CSV of one row per label
  that is not null, with the sum of the totals of the rows of that label; otherwise it is
  the CSV of the concatenation. The category counts read this CSV and pair the columns
  \<open>reported_issue\<close> and \<open>total\<close> when both are there, otherwise the first two columns in
  their order; a table with fewer than two columns raises.
\<close>

theorem batch_resolve_in_fifties:
  fixes rd :: "string \<Rightarrow> string + table" and net :: "string \<Rightarrow> response" and to_csv :: "table \<Rightarrow> string"
    and read_csv :: "string \<Rightarrow> py_error + table" and mk_dict :: "(cell \<times> cell) list \<Rightarrow> 'd"
    and le :: "cell \<Rightarrow> cell \<Rightarrow> bool" and osum :: "cell list \<Rightarrow> py_error + cell"
  shows "(event_ids \<noteq> [] \<longrightarrow>
           (let ids = split_on (CHR '','') event_ids;
                bs = map (\<lambda>k. take 50 (drop (k * 50) ids)) [0 ..< (length ids + 49) div 50];
                ok = concat (map (batch_tables rd net cfg) bs);
                df = pd_concat ok;
                run = get_select_311_data rd net to_csv le osum cfg event_ids event_date
            in concat bs = ids
               \<and> (\<forall>b \<in> set bs. b \<noteq> [] \<and> length b \<le> 50)
               \<and> (\<forall>b \<in> set (butlast bs). length b = 50)
               \<and> fst (snd run) = map (\<lambda>b. url_summary cfg (join '','' b)) bs
               \<and> (ok = [] \<longrightarrow> fst run = Inr [])
               \<and> set (cols df) = (\<Union>t \<in> set ok. set (cols t))
               \<and> rws df = concat (map (\<lambda>t. map (\<lambda>r. map (cell_at (cols t) r) (cols df)) (rws t)) ok)
               \<and> (\<forall>t \<in> set ok. \<forall>r c. cell_at (cols df) (map (cell_at (cols t) r) (cols df)) c
                                           = cell_at (cols t) r c)
               \<and> (ok \<noteq> [] \<and> \<not> (''reported_issue'' \<in> set (cols df) \<and> ''total'' \<in> set (cols df))
                    \<longrightarrow> fst run = Inr (to_csv df))
               \<and> (ok \<noteq> [] \<and> ''reported_issue'' \<in> set (cols df) \<and> ''total'' \<in> set (cols df)
                      \<and> list_all finite_or_null (column df ''total'')
                    \<longrightarrow> (\<exists>keys. fst run = Inr (to_csv \<lparr>cols = [''reported_issue'', ''total''],
                                    rws = map (\<lambda>k. [k, CNum (Fin (label_total df k))]) keys\<rparr>)
                           \<and> distinct keys
                           \<and> set keys = {k \<in> set (column df ''reported_issue''). \<not> is_null k}))))
       \<and> (length event_list = 120 \<and> (\<forall>x \<in> set event_list. CHR '','' \<notin> set x) \<longrightarrow>
            fst (snd (compute_area_category_counts rd net to_csv read_csv mk_dict le osum cfg event_list date_str))
              = [url_summary cfg (join '','' (take 50 event_list)),
                 url_summary cfg (join '','' (take 50 (drop 50 event_list))),
                 url_summary cfg (join '','' (drop 100 event_list))]
            \<and> length (take 50 event_list) = 50 \<and> length (take 50 (drop 50 event_list)) = 50
            \<and> length (drop 100 event_list) = 20)
       \<and> compute_area_category_counts rd net to_csv read_csv mk_dict le osum cfg [] date_str
            = (Inr (mk_dict []), [], None)
       \<and> (event_list \<noteq> []
            \<and> fst (get_select_311_data rd net to_csv le osum cfg (join '','' event_list) []) = Inr csv_str
            \<and> read_csv csv_str = Inr df_area \<longrightarrow>
            fst (compute_area_category_counts rd net to_csv read_csv mk_dict le osum cfg event_list date_str)
              = (if ''reported_issue'' \<in> set (cols df_area) \<and> ''total'' \<in> set (cols df_area)
                 then Inr (mk_dict (zip (column df_area ''reported_issue'') (column df_area ''total'')))
                 else (case cols df_area of
                         c1 # c2 # rest \<Rightarrow> Inr (mk_dict (zip (column df_area c1) (column df_area c2)))
                       | _ \<Rightarrow> Inl (ValueError ''not enough values to unpack''))))"
proof -
  have A: "let ids = split_on (CHR '','') event_ids;
                bs = map (\<lambda>k. take 50 (drop (k * 50) ids)) [0 ..< (length ids + 49) div 50];
                ok = concat (map (batch_tables rd net cfg) bs);
                df = pd_concat ok;
                run = get_select_311_data rd net to_csv le osum cfg event_ids event_date
            in concat bs = ids
               \<and> (\<forall>b \<in> set bs. b \<noteq> [] \<and> length b \<le> 50)
               \<and> (\<forall>b \<in> set (butlast bs). length b = 50)
               \<and> fst (snd run) = map (\<lambda>b. url_summary cfg (join '','' b)) bs
               \<and> (ok = [] \<longrightarrow> fst run = Inr [])
               \<and> set (cols df) = (\<Union>t \<in> set ok. set (cols t))
               \<and> rws df = concat (map (\<lambda>t. map (\<lambda>r. map (cell_at (cols t) r) (cols df)) (rws t)) ok)
               \<and> (\<forall>t \<in> set ok. \<forall>r c. cell_at (cols df) (map (cell_at (cols t) r) (cols df)) c
                                           = cell_at (cols t) r c)
               \<and> (ok \<noteq> [] \<and> \<not> (''reported_issue'' \<in> set (cols df) \<and> ''total'' \<in> set (cols df))
                    \<longrightarrow> fst run = Inr (to_csv df))
               \<and> (ok \<noteq> [] \<and> ''reported_issue'' \<in> set (cols df) \<and> ''total'' \<in> set (cols df)
                      \<and> list_all finite_or_null (column df ''total'')
                    \<longrightarrow> (\<exists>keys. fst run = Inr (to_csv \<lparr>cols = [''reported_issue'', ''total''],
                                    rws = map (\<lambda>k. [k, CNum (Fin (label_total df k))]) keys\<rparr>)
                           \<and> distinct keys
                           \<and> set keys = {k \<in> set (column df ''reported_issue''). \<not> is_null k}))"
    if ne: "event_ids \<noteq> []"
  proof -
    define ids where "ids = split_on (CHR '','') event_ids"
    define bs where "bs = map (\<lambda>k. take 50 (drop (k * 50) ids)) [0 ..< (length ids + 49) div 50]"
    define ok where "ok = concat (map (batch_tables rd net cfg) bs)"
    define df where "df = pd_concat ok"
    define run where "run = get_select_311_data rd net to_csv le osum cfg event_ids event_date"
    have bs': "bs = map (\<lambda>i. take BATCH_SIZE (drop i ids)) (py_range (length ids) BATCH_SIZE)"
      unfolding bs_def batches_eq ..
    have st: "fetch_batches rd net cfg ids (py_range (length ids) BATCH_SIZE) ([], [])
                = (ok, map (\<lambda>b. url_summary cfg (join '','' b)) bs)"
      unfolding fetch_batches_acc ok_def bs' by (simp add: comp_def)
    have p1: "concat bs = ids" unfolding bs' by (rule batches_cover)
    have p2: "\<forall>b \<in> set bs. b \<noteq> [] \<and> length b \<le> 50"
      unfolding bs' using batches_sizes by blast
    have p3: "\<forall>b \<in> set (butlast bs). length b = 50"
      unfolding bs' using batches_full by blast
    have p4: "fst (snd run) = map (\<lambda>b. url_summary cfg (join '','' b)) bs"
      using ne st unfolding run_def ids_def
      by (simp add: get_select_311_data_def Let_def split: sum.splits)
    have p5: "ok = [] \<longrightarrow> fst run = Inr []"
      using ne st unfolding run_def ids_def
      by (simp add: get_select_311_data_def Let_def)
    have p6: "set (cols df) = (\<Union>t \<in> set ok. set (cols t))"
      unfolding df_def by (rule pd_concat_cols)
    have p7: "rws df = concat (map (\<lambda>t. map (\<lambda>r. map (cell_at (cols t) r) (cols df)) (rws t)) ok)"
      unfolding df_def by (rule pd_concat_rows)
    have p8: "\<forall>t \<in> set ok. \<forall>r c. cell_at (cols df) (map (cell_at (cols t) r) (cols df)) c
                                           = cell_at (cols t) r c"
      unfolding df_def using pd_concat_cell by blast
    have p9: "fst run = Inr (to_csv df)"
      if "ok \<noteq> []" "\<not> (''reported_issue'' \<in> set (cols df) \<and> ''total'' \<in> set (cols df))"
    proof -
      from that(2) have "(''reported_issue'' \<in> set (cols (pd_concat ok)) \<and> ''total'' \<in> set (cols (pd_concat ok)))
                           = False"
        unfolding df_def by simp
      with ne st that(1) show ?thesis unfolding run_def ids_def df_def
        by (auto simp add: get_select_311_data_def Let_def)
    qed
    have p10: "\<exists>keys. fst run = Inr (to_csv \<lparr>cols = [''reported_issue'', ''total''],
                                    rws = map (\<lambda>k. [k, CNum (Fin (label_total df k))]) keys\<rparr>)
                           \<and> distinct keys
                           \<and> set keys = {k \<in> set (column df ''reported_issue''). \<not> is_null k}"
      if o: "ok \<noteq> []" and c1: "''reported_issue'' \<in> set (cols df)" and c2: "''total'' \<in> set (cols df)"
        and fin: "list_all finite_or_null (column df ''total'')"
    proof -
      from groupby_sum_totals [OF fin, of le osum]
      obtain keys where g: "groupby_sum le osum ''reported_issue'' ''total'' df
                  = Inr \<lparr>cols = [''reported_issue'', ''total''],
                         rws = map (\<lambda>k. [k, CNum (Fin (label_total df k))]) keys\<rparr>"
        and d: "distinct keys"
        and s: "set keys = {k \<in> set (column df ''reported_issue''). \<not> is_null k}"
        by blast
      have "fst run = Inr (to_csv \<lparr>cols = [''reported_issue'', ''total''],
                                    rws = map (\<lambda>k. [k, CNum (Fin (label_total df k))]) keys\<rparr>)"
        using ne st o c1 c2 g unfolding run_def ids_def df_def
        by (simp add: get_select_311_data_def Let_def)
      with d s show ?thesis by blast
    qed
    from p1 p2 p3 p4 p5 p6 p7 p8 p9 p10 show ?thesis
      unfolding Let_def ids_def [symmetric] bs_def [symmetric] ok_def [symmetric] df_def [symmetric]
        run_def [symmetric]
      by blast
  qed
  have B: "fst (snd (compute_area_category_counts rd net to_csv read_csv mk_dict le osum cfg event_list date_str))
              = [url_summary cfg (join '','' (take 50 event_list)),
                 url_summary cfg (join '','' (take 50 (drop 50 event_list))),
                 url_summary cfg (join '','' (drop 100 event_list))]
            \<and> length (take 50 event_list) = 50 \<and> length (take 50 (drop 50 event_list)) = 50
            \<and> length (drop 100 event_list) = 20"
    if len: "length event_list = 120" and free: "\<forall>x \<in> set event_list. CHR '','' \<notin> set x"
  proof -
    from len have ne: "event_list \<noteq> []" by auto
    from len obtain x y ys where xs: "event_list = x # y # ys"
      by (cases event_list; cases "tl event_list") auto
    have jn: "join '','' event_list \<noteq> []" unfolding xs by simp
    have sp: "split_on (CHR '','') (join '','' event_list) = event_list"
      using split_join [OF ne free] by simp
    have "fst (snd (compute_area_category_counts rd net to_csv read_csv mk_dict le osum cfg event_list date_str))
            = map (\<lambda>i. url_summary cfg (join '','' (take BATCH_SIZE (drop i event_list))))
                  (py_range 120 BATCH_SIZE)"
      unfolding compute_requests [OF ne] get_select_requests [OF jn] sp len ..
    then have "fst (snd (compute_area_category_counts rd net to_csv read_csv mk_dict le osum cfg event_list date_str))
            = map (\<lambda>i. url_summary cfg (join '','' (take BATCH_SIZE (drop i event_list)))) [0, 50, 100]"
      unfolding py_range_120 .
    then show ?thesis using len by (simp add: BATCH_SIZE_def)
  qed
  have C: "compute_area_category_counts rd net to_csv read_csv mk_dict le osum cfg [] date_str
            = (Inr (mk_dict []), [], None)"
    by (simp add: compute_area_category_counts_def)
  have D: "fst (compute_area_category_counts rd net to_csv read_csv mk_dict le osum cfg event_list date_str)
              = (if ''reported_issue'' \<in> set (cols df_area) \<and> ''total'' \<in> set (cols df_area)
                 then Inr (mk_dict (zip (column df_area ''reported_issue'') (column df_area ''total'')))
                 else (case cols df_area of
                         c1 # c2 # rest \<Rightarrow> Inr (mk_dict (zip (column df_area c1) (column df_area c2)))
                       | _ \<Rightarrow> Inl (ValueError ''not enough values to unpack'')))"
    if ne: "event_list \<noteq> []"
      and g: "fst (get_select_311_data rd net to_csv le osum cfg (join '','' event_list) []) = Inr csv_str"
      and r: "read_csv csv_str = Inr df_area"
  proof -
    obtain a reqs wr where t: "get_select_311_data rd net to_csv le osum cfg (join '','' event_list) []
                                 = (a, reqs, wr)"
      by (cases "get_select_311_data rd net to_csv le osum cfg (join '','' event_list) []") auto
    with g have a: "a = Inr csv_str" by simp
    show ?thesis
    proof (cases "label_value_cols (cols df_area)")
      case (Inl e)
      with ne t a r have "fst (compute_area_category_counts rd net to_csv read_csv mk_dict le osum cfg
                                 event_list date_str) = Inl e"
        by (simp add: compute_area_category_counts_def)
      with Inl show ?thesis
        unfolding label_value_cols_cases by (auto split: if_splits list.splits)
    next
      case (Inr lv)
      with ne t a r have "fst (compute_area_category_counts rd net to_csv read_csv mk_dict le osum cfg
                                 event_list date_str)
                            = Inr (mk_dict (zip (column df_area (fst lv)) (column df_area (snd lv))))"
        by (simp add: compute_area_category_counts_def)
      with Inr show ?thesis
        unfolding label_value_cols_cases by (auto split: if_splits list.splits)
    qed
  qed
  from A B C D show ?thesis by blast
qed


theorem batch_resolve_in_fifties_witness:
  "fst (snd (get_select_311_data
       (\<lambda>s. if s = ''[B]'' then Inr \<lparr>cols = [''reported_issue'', ''total''],
                rws = [[CStr ''Pothole'', CNum (Fin 3)], [CStr ''Trash'', CNum (Fin 1)],
                       [CStr ''Pothole'', CNum (Fin 2)]]\<rparr>
             else Inl ''Expected object or value'')
       (\<lambda>u. if contains ''=a,'' u
             then \<lparr>status_code = 500, body_text = ''boom'', body_chunks = []\<rparr>
             else \<lparr>status_code = 200, body_text = [], body_chunks = [[CHR ''['', LF], ''B'', [LF, CHR '']'']]\<rparr>)
       (\<lambda>df. join '','' (cols df) @ concat (map (\<lambda>r. LF # join '','' (map (\<lambda>c. case c of CStr s \<Rightarrow> s | _ \<Rightarrow> ''5'') r)) (rws df))) (\<lambda>a b. a = CStr ''Pothole'') (\<lambda>vs. Inl TypeError)
       \<lparr>cache_dir = ''./cache'', api_base_url = ''http://127.0.0.1:8888''\<rparr>
       (join '','' (replicate 50 ''a'' @ [''b''])) []))
     = [url_summary \<lparr>cache_dir = ''./cache'', api_base_url = ''http://127.0.0.1:8888''\<rparr>
          (join '','' (replicate 50 ''a'')),
        url_summary \<lparr>cache_dir = ''./cache'', api_base_url = ''http://127.0.0.1:8888''\<rparr> ''b'']
   \<and> (\<exists>keys. distinct keys \<and> set keys = {CStr ''Pothole'', CStr ''Trash''}
      \<and> fst (get_select_311_data
       (\<lambda>s. if s = ''[B]'' then Inr \<lparr>cols = [''reported_issue'', ''total''],
                rws = [[CStr ''Pothole'', CNum (Fin 3)], [CStr ''Trash'', CNum (Fin 1)],
                       [CStr ''Pothole'', CNum (Fin 2)]]\<rparr>
             else Inl ''Expected object or value'')
       (\<lambda>u. if contains ''=a,'' u
             then \<lparr>status_code = 500, body_text = ''boom'', body_chunks = []\<rparr>
             else \<lparr>status_code = 200, body_text = [], body_chunks = [[CHR ''['', LF], ''B'', [LF, CHR '']'']]\<rparr>)
       (\<lambda>df. join '','' (cols df) @ concat (map (\<lambda>r. LF # join '','' (map (\<lambda>c. case c of CStr s \<Rightarrow> s | _ \<Rightarrow> ''5'') r)) (rws df))) (\<lambda>a b. a = CStr ''Pothole'') (\<lambda>vs. Inl TypeError)
       \<lparr>cache_dir = ''./cache'', api_base_url = ''http://127.0.0.1:8888''\<rparr>
       (join '','' (replicate 50 ''a'' @ [''b''])) [])
     = Inr ((\<lambda>df. join '','' (cols df) @ concat (map (\<lambda>r. LF # join '','' (map (\<lambda>c. case c of CStr s \<Rightarrow> s | _ \<Rightarrow> ''5'') r)) (rws df)))
             \<lparr>cols = [''reported_issue'', ''total''],
              rws = map (\<lambda>k. [k, CNum (Fin (if k = CStr ''Pothole'' then 5 else 1))]) keys\<rparr>))
   \<and> label_total \<lparr>cols = [''reported_issue'', ''total''],
                rws = [[CStr ''Pothole'', CNum (Fin 3)], [CStr ''Trash'', CNum (Fin 1)],
                       [CStr ''Pothole'', CNum (Fin 2)]]\<rparr> (CStr ''Pothole'') = 5
   \<and> length (fst (snd (compute_area_category_counts
       (\<lambda>s. Inl ''Expected object or value'')
       (\<lambda>u. \<lparr>status_code = 500, body_text = ''boom'', body_chunks = []\<rparr>)
       (\<lambda>df. join '','' (cols df) @ concat (map (\<lambda>r. LF # join '','' (map (\<lambda>c. case c of CStr s \<Rightarrow> s | _ \<Rightarrow> ''5'') r)) (rws df))) (\<lambda>s. Inl EmptyDataError) (\<lambda>kvs. kvs)
       (\<lambda>a b. a = CStr ''Pothole'') (\<lambda>vs. Inl TypeError)
       \<lparr>cache_dir = ''./cache'', api_base_url = ''http://127.0.0.1:8888''\<rparr>
       (replicate 120 ''7'') ''December 2024''))) = 3
   \<and> fst (compute_area_category_counts
       (\<lambda>s. if s = ''[B]'' then Inr \<lparr>cols = [''reported_issue'', ''total''],
                rws = [[CStr ''Pothole'', CNum (Fin 3)], [CStr ''Trash'', CNum (Fin 1)],
                       [CStr ''Pothole'', CNum (Fin 2)]]\<rparr>
             else Inl ''Expected object or value'')
       (\<lambda>u. if contains ''=a,'' u
             then \<lparr>status_code = 500, body_text = ''boom'', body_chunks = []\<rparr>
             else \<lparr>status_code = 200, body_text = [], body_chunks = [[CHR ''['', LF], ''B'', [LF, CHR '']'']]\<rparr>)
       (\<lambda>df. join '','' (cols df) @ concat (map (\<lambda>r. LF # join '','' (map (\<lambda>c. case c of CStr s \<Rightarrow> s | _ \<Rightarrow> ''5'') r)) (rws df)))
       (\<lambda>s. Inr \<lparr>cols = [''name'', ''n'', ''more''], rws = [[CStr ''x'', CNum (Fin 1), CNull]]\<rparr>)
       (\<lambda>kvs. kvs) (\<lambda>a b. a = CStr ''Pothole'') (\<lambda>vs. Inl TypeError)
       \<lparr>cache_dir = ''./cache'', api_base_url = ''http://127.0.0.1:8888''\<rparr>
       (replicate 50 ''a'' @ [''b'']) ''December 2024'')
     = Inr [(CStr ''x'', CNum (Fin 1))]"
proof -
  let ?TB = "\<lparr>cols = [''reported_issue'', ''total''],
                rws = [[CStr ''Pothole'', CNum (Fin 3)], [CStr ''Trash'', CNum (Fin 1)],
                       [CStr ''Pothole'', CNum (Fin 2)]]\<rparr>"
  let ?rd = "\<lambda>s. if s = ''[B]'' then Inr ?TB else Inl ''Expected object or value''"
  let ?bad = "\<lparr>status_code = 500, body_text = ''boom'', body_chunks = []\<rparr>"
  let ?good = "\<lparr>status_code = 200, body_text = [], body_chunks = [[CHR ''['', LF], ''B'', [LF, CHR '']'']]\<rparr>"
  let ?net = "\<lambda>u. if contains ''=a,'' u then ?bad else ?good"
  let ?csv = "\<lambda>df. join '','' (cols df) @ concat (map (\<lambda>r. LF # join '','' (map (\<lambda>c. case c of CStr s \<Rightarrow> s | _ \<Rightarrow> ''5'') r)) (rws df))"
  let ?le = "\<lambda>a b. a = CStr ''Pothole''"
  let ?os = "\<lambda>vs :: cell list. (Inl TypeError :: py_error + cell)"
  let ?C = "\<lparr>cache_dir = ''./cache'', api_base_url = ''http://127.0.0.1:8888''\<rparr>"
  let ?ids = "replicate 50 ''a'' @ [''b'']"
  let ?TX = "\<lparr>cols = [''name'', ''n'', ''more''], rws = [[CStr ''x'', CNum (Fin 1), CNull]]\<rparr>"
  let ?rc = "\<lambda>s :: string. (Inr ?TX :: py_error + table)"
  let ?run = "get_select_311_data ?rd ?net ?csv ?le ?os ?C (join '','' ?ids) []"
  have idsne: "?ids \<noteq> []" by simp
  have free: "\<forall>x \<in> set ?ids. CHR '','' \<notin> set x" by auto
  have sp: "split_on (CHR '','') (join '','' ?ids) = ?ids"
    using split_join [OF idsne free] by simp
  have ne: "join '','' ?ids \<noteq> []" by code_simp
  have bs: "map (\<lambda>k. take 50 (drop (k * 50) ?ids)) [0 ..< (length ?ids + 49) div 50]
              = [replicate 50 ''a'', [''b'']]"
    by code_simp
  have ua: "contains ''=a,'' (url_summary ?C (join '','' (replicate 50 ''a'')))" by code_simp
  have ub: "\<not> contains ''=a,'' (url_summary ?C (join '','' [''b'']))" by code_simp
  have asm: "assemble [[CHR ''['', LF], ''B'', [LF, CHR '']'']] = ''[B]''" by code_simp
  have bt1: "batch_tables ?rd ?net ?C (replicate 50 ''a'') = []"
    using ua by (simp add: batch_tables_def stream_to_dataframe_def)
  have bt2: "batch_tables ?rd ?net ?C [''b''] = [?TB]"
    using ub by (simp add: batch_tables_def stream_to_dataframe_def asm parse_or_repair_def)
  have pc: "pd_concat [?TB] = ?TB"
    by (simp add: pd_concat_def unique_def cell_at_def rget_def)
  have fin: "list_all finite_or_null (column ?TB ''total'')"
    by (simp add: column_def cell_at_def rget_def)
  note A = batch_resolve_in_fifties [where event_ids = "join '','' ?ids" and rd = ?rd and net = ?net
      and cfg = ?C and to_csv = ?csv and le = ?le and osum = ?os and event_date = "[]",
      THEN conjunct1, rule_format, OF ne]
  from A have one: "fst (snd ?run) = [url_summary ?C (join '','' (replicate 50 ''a'')), url_summary ?C ''b'']"
    unfolding Let_def sp bs by simp
  from A have "\<exists>keys. fst ?run = Inr (?csv \<lparr>cols = [''reported_issue'', ''total''],
                                    rws = map (\<lambda>k. [k, CNum (Fin (label_total ?TB k))]) keys\<rparr>)
                   \<and> distinct keys
                   \<and> set keys = {k \<in> set (column ?TB ''reported_issue''). \<not> is_null k}"
    unfolding Let_def sp bs using fin by (simp add: bt1 bt2 pc)
  then obtain keys where run: "fst ?run = Inr (?csv \<lparr>cols = [''reported_issue'', ''total''],
                                    rws = map (\<lambda>k. [k, CNum (Fin (label_total ?TB k))]) keys\<rparr>)"
    and dk: "distinct keys"
    and sk: "set keys = {k \<in> set (column ?TB ''reported_issue''). \<not> is_null k}"
    by blast
  have col: "column ?TB ''reported_issue'' = [CStr ''Pothole'', CStr ''Trash'', CStr ''Pothole'']"
    by (simp add: column_def cell_at_def rget_def)
  have "{k \<in> set [CStr ''Pothole'', CStr ''Trash'', CStr ''Pothole'']. \<not> is_null k}
          = {CStr ''Pothole'', CStr ''Trash''}"
    by auto
  with sk have sk': "set keys = {CStr ''Pothole'', CStr ''Trash''}"
    unfolding col by simp
  have lt: "label_total ?TB (CStr ''Pothole'') = 5"
    by (simp add: label_total_def cell_at_def rget_def)
  have l1: "label_total ?TB (CStr ''Trash'') = 1"
    by (simp add: label_total_def cell_at_def rget_def)
  have "map (\<lambda>k. [k, CNum (Fin (label_total ?TB k))]) keys
          = map (\<lambda>k. [k, CNum (Fin (if k = CStr ''Pothole'' then 5 else 1))]) keys"
    using sk' lt l1 by (intro map_cong refl) auto
  with run have run': "fst ?run = Inr (?csv \<lparr>cols = [''reported_issue'', ''total''],
                   rws = map (\<lambda>k. [k, CNum (Fin (if k = CStr ''Pothole'' then 5 else 1))]) keys\<rparr>)"
    by simp
  from dk sk' run' have two: "\<exists>keys. distinct keys \<and> set keys = {CStr ''Pothole'', CStr ''Trash''}
      \<and> fst ?run = Inr (?csv \<lparr>cols = [''reported_issue'', ''total''],
                   rws = map (\<lambda>k. [k, CNum (Fin (if k = CStr ''Pothole'' then 5 else 1))]) keys\<rparr>)"
    by blast
  let ?rdz = "\<lambda>s :: string. (Inl ''Expected object or value'' :: string + table)"
  let ?rcz = "\<lambda>s :: string. (Inl EmptyDataError :: py_error + table)"
  let ?md = "\<lambda>kvs :: (cell \<times> cell) list. kvs"
  have l120: "length (replicate 120 ''7'') = 120" by simp
  have f120: "\<forall>x \<in> set (replicate 120 ''7''). CHR '','' \<notin> set x" by simp
  note B = batch_resolve_in_fifties [where event_list = "replicate 120 ''7''" and rd = ?rdz
      and net = "\<lambda>u. ?bad" and cfg = ?C and to_csv = ?csv and le = ?le and osum = ?os
      and read_csv = ?rcz and mk_dict = ?md and date_str = "''December 2024''",
      THEN conjunct2, THEN conjunct1, rule_format, OF conjI [OF l120 f120]]
  from B have three: "length (fst (snd (compute_area_category_counts ?rdz (\<lambda>u. ?bad) ?csv ?rcz ?md ?le ?os ?C
                          (replicate 120 ''7'') ''December 2024''))) = 3"
    by simp
  note D = batch_resolve_in_fifties [where event_list = ?ids and rd = ?rd
      and net = ?net and cfg = ?C and to_csv = ?csv and le = ?le and osum = ?os
      and read_csv = ?rc and mk_dict = ?md and date_str = "''December 2024''"
      and csv_str = "?csv \<lparr>cols = [''reported_issue'', ''total''],
                                    rws = map (\<lambda>k. [k, CNum (Fin (label_total ?TB k))]) keys\<rparr>"
      and df_area = ?TX,
      THEN conjunct2, THEN conjunct2, THEN conjunct2, rule_format, OF conjI [OF idsne conjI [OF run refl]]]
  from D have four: "fst (compute_area_category_counts ?rd ?net ?csv ?rc ?md ?le ?os ?C ?ids ''December 2024'')
                       = Inr [(CStr ''x'', CNum (Fin 1))]"
    by (simp add: column_def cell_at_def rget_def)
  from one two lt three four show ?thesis by (intro conjI)
qed

section \<open>Properties of the point-in-area shot counter\<close>

lemma lonlat_shape: "lonlat v = Some p \<Longrightarrow> v = JArr [JNum (fst p), JNum (snd p)]"
  by (erule lonlat.elims) simp_all

lemma member_of_subscript: "member_of v k = Some x \<Longrightarrow> subscript v k = Inr x"
  by (cases v) simp_all

lemma subscript_member_of: "subscript v k = Inr x \<Longrightarrow> member_of v k = Some x"
  by (cases v) (simp_all split: option.splits)

lemma feat_cell_point:
  assumes "feature_point f = Some p"
  shows "feat_cell ltc f = Inr (ltc (snd p) (fst p) 10)"
proof -
  from assms obtain g where g: "member_of f ''geometry'' = Some g"
    by (cases "member_of f ''geometry''") (simp_all add: feature_point_def)
  from assms g obtain cs where cs: "member_of g ''coordinates'' = Some cs"
    by (cases "member_of g ''coordinates''") (simp_all add: feature_point_def)
  from assms g cs have "lonlat cs = Some p" by (simp add: feature_point_def)
  then have "cs = JArr [JNum (fst p), JNum (snd p)]" by (rule lonlat_shape)
  with member_of_subscript [OF g] member_of_subscript [OF cs] show ?thesis
    by (simp add: feat_cell_def unpack2_def)
qed

lemma iterate_pair: "iterate cs = Inr [JNum a, JNum b] \<Longrightarrow> cs = JArr [JNum a, JNum b]"
  by (cases cs) auto

lemma unpack2_pair: "unpack2 cs = Inr (a, b) \<Longrightarrow> iterate cs = Inr [a, b]"
  by (auto simp: unpack2_def split: sum.splits list.splits)

lemma feat_cell_returns:
  assumes "feat_cell ltc f = Inr c"
  shows "\<exists>p. feature_point f = Some p"
proof -
  obtain g where g: "subscript f ''geometry'' = Inr g"
    using assms by (cases "subscript f ''geometry''") (simp_all add: feat_cell_def)
  obtain cs where cs: "subscript g ''coordinates'' = Inr cs"
    using assms g by (cases "subscript g ''coordinates''") (simp_all add: feat_cell_def)
  obtain a b where p: "unpack2 cs = Inr (a, b)"
    using assms g cs by (cases "unpack2 cs") (auto simp: feat_cell_def)
  from assms g cs p obtain lon where a: "a = JNum lon"
    by (cases a) (simp_all add: feat_cell_def)
  from assms g cs p a obtain lat where b: "b = JNum lat"
    by (cases b) (simp_all add: feat_cell_def)
  from unpack2_pair [OF p] have "cs = JArr [JNum lon, JNum lat]"
    unfolding a b by (rule iterate_pair)
  with subscript_member_of [OF g] subscript_member_of [OF cs] show ?thesis
    by (simp add: feature_point_def)
qed

lemma feat_cell_raises: "feature_point f = None \<Longrightarrow> \<exists>e. feat_cell ltc f = Inl e"
  using feat_cell_returns [of ltc f] by (cases "feat_cell ltc f") auto

lemma count_feats_exact:
  "list_all point_feature fs \<Longrightarrow>
     count_feats ltc hs fs k = Inr (k + length (filter (in_selection ltc hs) fs))"
proof (induction fs arbitrary: k)
  case Nil
  then show ?case by simp
next
  case (Cons f fs)
  from Cons.prems obtain p where p: "feature_point f = Some p"
    by (auto simp: point_feature_def)
  from Cons.prems have rest: "list_all point_feature fs" by simp
  from feat_cell_point [OF p] Cons.IH [OF rest] p show ?case
    by (simp add: in_selection_def)
qed

lemma count_feats_raises:
  "\<not> list_all point_feature fs \<Longrightarrow> \<exists>e. count_feats ltc hs fs k = Inl e"
proof (induction fs arbitrary: k)
  case Nil
  then show ?case by simp
next
  case (Cons f fs)
  show ?case
  proof (cases "feature_point f")
    case None
    from feat_cell_raises [OF None, of ltc] obtain e where "feat_cell ltc f = Inl e" by blast
    then show ?thesis by simp
  next
    case (Some p)
    then have "point_feature f" by (simp add: point_feature_def)
    with Cons.prems have "\<not> list_all point_feature fs" by simp
    from Cons.IH [OF this] feat_cell_point [OF Some] show ?thesis by simp
  qed
qed

text \<open>
  Claim C10, as the code has it. The point-in-area shot counter returns 0 when the hex-id
  selection is empty, when the point feature collection is absent (\<^verbatim>\<open>None\<close> or an empty
  dict) or when it has no \<^verbatim>\<open>"features"\<close> key. Otherwise, on a list of features that all
  are point features (a geometry whose coordinates are two numbers), it returns the number
  of features whose cell at resolution 10 is in the selection, which lies between 0 and the
  number of features; on a list with a feature that is not a point feature it raises.
\<close>

theorem compute_area_shot_count_guards_and_count:
  "compute_area_shot_count ltc [] g = Inr 0
   \<and> compute_area_shot_count ltc hs None = Inr 0
   \<and> compute_area_shot_count ltc hs (Some []) = Inr 0
   \<and> (map_of d ''features'' = None \<longrightarrow> compute_area_shot_count ltc hs (Some d) = Inr 0)
   \<and> (hs \<noteq> [] \<and> map_of d ''features'' = Some (JArr fs) \<and> list_all point_feature fs \<longrightarrow>
        compute_area_shot_count ltc hs (Some d) = Inr (length (filter (in_selection ltc hs) fs))
        \<and> length (filter (in_selection ltc hs) fs) \<le> length fs)
   \<and> (hs \<noteq> [] \<and> map_of d ''features'' = Some (JArr fs) \<and> \<not> list_all point_feature fs \<longrightarrow>
        (\<exists>e. compute_area_shot_count ltc hs (Some d) = Inl e))"
proof -
  have a: "compute_area_shot_count ltc [] g = Inr 0"
    by (simp add: compute_area_shot_count_def split: option.splits)
  have b: "compute_area_shot_count ltc hs None = Inr 0"
    by (simp add: compute_area_shot_count_def)
  have c: "compute_area_shot_count ltc hs (Some []) = Inr 0"
    by (simp add: compute_area_shot_count_def)
  have d: "map_of d ''features'' = None \<longrightarrow> compute_area_shot_count ltc hs (Some d) = Inr 0"
    by (simp add: compute_area_shot_count_def)
  have run: "compute_area_shot_count ltc hs (Some d) = count_feats ltc hs fs 0"
    if ne: "hs \<noteq> []" and f: "map_of d ''features'' = Some (JArr fs)"
  proof -
    from f have "d \<noteq> []" by auto
    with ne f show ?thesis by (simp add: compute_area_shot_count_def)
  qed
  have e: "compute_area_shot_count ltc hs (Some d) = Inr (length (filter (in_selection ltc hs) fs))
             \<and> length (filter (in_selection ltc hs) fs) \<le> length fs"
    if "hs \<noteq> []" "map_of d ''features'' = Some (JArr fs)" "list_all point_feature fs"
    using run [OF that(1,2)] count_feats_exact [OF that(3), of ltc hs 0] by simp
  have f: "\<exists>e. compute_area_shot_count ltc hs (Some d) = Inl e"
    if "hs \<noteq> []" "map_of d ''features'' = Some (JArr fs)" "\<not> list_all point_feature fs"
    using run [OF that(1,2)] count_feats_raises [OF that(3), of ltc hs 0] by simp
  from a b c d e f show ?thesis by blast
qed

theorem compute_area_shot_count_guards_and_count_witness:
  "compute_area_shot_count (\<lambda>lat lon res. if lat < 42 then ''a'' else ''b'') [''a'']
        (Some [(''type'', JStr ''FeatureCollection'')]) = Inr 0
   \<and> compute_area_shot_count (\<lambda>lat lon res. if lat < 42 then ''a'' else ''b'') [''a'']
        (Some [(''features'', JArr
           [JObj [(''geometry'', JObj [(''coordinates'', JArr [JNum (- 71), JNum 41])])],
            JObj [(''geometry'', JObj [(''coordinates'', JArr [JNum (- 71), JNum 43])])],
            JObj [(''geometry'', JObj [(''coordinates'', JArr [JNum (- 72), JNum 40])])]])])
        = Inr 2
   \<and> (\<exists>e. compute_area_shot_count (\<lambda>lat lon res. if lat < 42 then ''a'' else ''b'') [''a'']
        (Some [(''features'', JArr
           [JObj [(''geometry'', JObj [(''coordinates'', JArr [JNum (- 71), JNum 41])])],
            JObj [(''geometry'', JObj [(''coordinates'', JArr [JNum (- 71)])])]])])
        = Inl e)"
proof -
  let ?ltc = "\<lambda>(lat::real) (lon::real) (res::nat). if lat < 42 then ''a'' else ''b''"
  let ?f1 = "JObj [(''geometry'', JObj [(''coordinates'', JArr [JNum (- 71), JNum 41])])]"
  let ?f2 = "JObj [(''geometry'', JObj [(''coordinates'', JArr [JNum (- 71), JNum 43])])]"
  let ?f3 = "JObj [(''geometry'', JObj [(''coordinates'', JArr [JNum (- 72), JNum 40])])]"
  let ?bad = "JObj [(''geometry'', JObj [(''coordinates'', JArr [JNum (- 71)])])]"
  have hs: "[''a''] \<noteq> ([] :: string list)" by simp
  have n: "map_of [(''type'', JStr ''FeatureCollection'')] ''features'' = None"
    by simp
  have p: "list_all point_feature [?f1, ?f2, ?f3]"
    by (simp add: point_feature_def feature_point_def)
  have q: "\<not> list_all point_feature [?f1, ?bad]"
    by (simp add: point_feature_def feature_point_def)
  have f: "map_of [(''features'', JArr [?f1, ?f2, ?f3])] ''features'' = Some (JArr [?f1, ?f2, ?f3])"
    by simp
  have f': "map_of [(''features'', JArr [?f1, ?bad])] ''features'' = Some (JArr [?f1, ?bad])"
    by simp
  have cnt: "length (filter (in_selection ?ltc [''a'']) [?f1, ?f2, ?f3]) = 2"
    by (simp add: in_selection_def feature_point_def)
  from compute_area_shot_count_guards_and_count
         [of ?ltc None "[''a'']" "[(''type'', JStr ''FeatureCollection'')]" "[]"] n
  have one: "compute_area_shot_count ?ltc [''a''] (Some [(''type'', JStr ''FeatureCollection'')]) = Inr 0"
    by blast
  from compute_area_shot_count_guards_and_count
         [of ?ltc None "[''a'']" "[(''features'', JArr [?f1, ?f2, ?f3])]" "[?f1, ?f2, ?f3]"] hs f p
  have "compute_area_shot_count ?ltc [''a''] (Some [(''features'', JArr [?f1, ?f2, ?f3])])
               = Inr (length (filter (in_selection ?ltc [''a'']) [?f1, ?f2, ?f3]))"
    by blast
  then have two: "compute_area_shot_count ?ltc [''a''] (Some [(''features'', JArr [?f1, ?f2, ?f3])]) = Inr 2"
    unfolding cnt .
  from compute_area_shot_count_guards_and_count
         [of ?ltc None "[''a'']" "[(''features'', JArr [?f1, ?bad])]" "[?f1, ?bad]"] hs f' q
  have three: "\<exists>e. compute_area_shot_count ?ltc [''a''] (Some [(''features'', JArr [?f1, ?bad])]) = Inl e"
    by blast
  from one two three show ?thesis by (intro conjI)
qed

theorem compute_area_shot_count_raises_counterexample:
  "compute_area_shot_count (\<lambda>lat lon res. ''8a2a1072b59ffff'') [''8a2a1072b59ffff'']
     (Some [(''type'', JStr ''FeatureCollection''),
            (''features'', JArr [JObj [(''type'', JStr ''Feature'')]])])
   = Inl (KeyError ''geometry'')"
  by (simp add: compute_area_shot_count_def feat_cell_def)
end
